theory Spec2Isabelle
  imports Complex_Main "HOL-Library.Word" "HOL-Library.Signed_Division"
begin

section \<open>Pixel grids (Go's \<open>image\<close> package as the handlers use it)\<close>

text \<open>
  An RGBA colour of four 8-bit channels. As in the data model of the specification, a
  pixel grid holds RGBA values; on them the colour-model conversion that \<open>RGBA.Set\<close>
  applies is the identity.
\<close>

datatype rgba = RGBA (red: "8 word") (green: "8 word") (blue: "8 word") (alpha: "8 word")

definition zero_rgba :: rgba where
  "zero_rgba = RGBA 0 0 0 0"

text \<open>\<open>image.Rectangle\<close>: the points with \<open>min \<le> p < max\<close> on both axes.\<close>

record rectangle =
  min_x :: int
  min_y :: int
  max_x :: int
  max_y :: int

text \<open>\<open>image.Rect\<close> swaps the coordinates of an axis given in the wrong order.\<close>

definition Rect :: "int \<Rightarrow> int \<Rightarrow> int \<Rightarrow> int \<Rightarrow> rectangle" where
  "Rect x0 y0 x1 y1 =
     \<lparr>min_x = (if x0 > x1 then x1 else x0), min_y = (if y0 > y1 then y1 else y0),
      max_x = (if x0 > x1 then x0 else x1), max_y = (if y0 > y1 then y0 else y1)\<rparr>"

definition Dx :: "rectangle \<Rightarrow> int" where
  "Dx r = max_x r - min_x r"

definition Dy :: "rectangle \<Rightarrow> int" where
  "Dy r = max_y r - min_y r"

definition In_rect :: "int \<Rightarrow> int \<Rightarrow> rectangle \<Rightarrow> bool" where
  "In_rect x y r \<longleftrightarrow> min_x r \<le> x \<and> x < max_x r \<and> min_y r \<le> y \<and> y < max_y r"

text \<open>Every rectangle built by \<open>image.Rect\<close> or returned by a decoder is well formed.\<close>

definition wf_rect :: "rectangle \<Rightarrow> bool" where
  "wf_rect r \<longleftrightarrow> min_x r \<le> max_x r \<and> min_y r \<le> max_y r"

text \<open>
  An image: its bounds and its pixel store. \<open>At\<close> is the zero colour outside the bounds,
  \<open>Set\<close> does nothing there, and \<open>NewRGBA\<close> starts with every pixel zero.
\<close>

record image =
  Bounds :: rectangle
  Pix :: "int \<times> int \<Rightarrow> rgba"

definition At :: "image \<Rightarrow> int \<Rightarrow> int \<Rightarrow> rgba" where
  "At img x y = (if In_rect x y (Bounds img) then Pix img (x, y) else zero_rgba)"

definition NewRGBA :: "rectangle \<Rightarrow> image" where
  "NewRGBA r = \<lparr>Bounds = r, Pix = (\<lambda>_. zero_rgba)\<rparr>"

definition Set_px :: "image \<Rightarrow> int \<Rightarrow> int \<Rightarrow> rgba \<Rightarrow> image" where
  "Set_px dst x y c =
     (if In_rect x y (Bounds dst) then dst\<lparr>Pix := (Pix dst)((x, y) := c)\<rparr> else dst)"

subsection \<open>The geometric transforms of \<open>users.go\<close>\<close>

text \<open>Each loop \<open>for y := 0; y < h; y++ { for x := 0; x < w; x++ { ... } }\<close> is a nested fold.\<close>

definition flipHorizontal :: "image \<Rightarrow> image" where
  "flipHorizontal img =
     (let bounds = Bounds img; w = Dx bounds; h = Dy bounds;
          dst = NewRGBA (Rect 0 0 w h)
      in fold (\<lambda>y dst. fold (\<lambda>x dst.
            Set_px dst (w - 1 - x) y (At img (x + min_x bounds) (y + min_y bounds)))
          [0..w - 1] dst) [0..h - 1] dst)"

definition flipVertical :: "image \<Rightarrow> image" where
  "flipVertical img =
     (let bounds = Bounds img; w = Dx bounds; h = Dy bounds;
          dst = NewRGBA (Rect 0 0 w h)
      in fold (\<lambda>y dst. fold (\<lambda>x dst.
            Set_px dst x (h - 1 - y) (At img (x + min_x bounds) (y + min_y bounds)))
          [0..w - 1] dst) [0..h - 1] dst)"

definition rotate180 :: "image \<Rightarrow> image" where
  "rotate180 img =
     (let bounds = Bounds img; w = Dx bounds; h = Dy bounds;
          dst = NewRGBA (Rect 0 0 w h)
      in fold (\<lambda>y dst. fold (\<lambda>x dst.
            Set_px dst (w - 1 - x) (h - 1 - y) (At img (x + min_x bounds) (y + min_y bounds)))
          [0..w - 1] dst) [0..h - 1] dst)"

definition rotate90CW :: "image \<Rightarrow> int \<Rightarrow> int \<Rightarrow> image" where
  "rotate90CW img newW newH =
     (let bounds = Bounds img; w = Dx bounds; h = Dy bounds;
          dst = NewRGBA (Rect 0 0 newW newH)
      in fold (\<lambda>y dst. fold (\<lambda>x dst.
            Set_px dst (h - 1 - y) x (At img (x + min_x bounds) (y + min_y bounds)))
          [0..w - 1] dst) [0..h - 1] dst)"

definition rotate90CCW :: "image \<Rightarrow> int \<Rightarrow> int \<Rightarrow> image" where
  "rotate90CCW img newW newH =
     (let bounds = Bounds img; w = Dx bounds; h = Dy bounds;
          dst = NewRGBA (Rect 0 0 newW newH)
      in fold (\<lambda>y dst. fold (\<lambda>x dst.
            Set_px dst y (w - 1 - x) (At img (x + min_x bounds) (y + min_y bounds)))
          [0..w - 1] dst) [0..h - 1] dst)"

subsection \<open>Orientation correction\<close>

text \<open>
  The three calls into the EXIF library (\<open>exif.Decode\<close>, \<open>x.Get(exif.Orientation)\<close>,
  \<open>tag.Int(0)\<close>) are parameters; each returns \<open>None\<close> where the Go call returns an error.
\<close>

definition applyExifOrientation ::
  "('r \<Rightarrow> 'x option) \<Rightarrow> ('x \<Rightarrow> 't option) \<Rightarrow> ('t \<Rightarrow> int option) \<Rightarrow> 'r \<Rightarrow> image \<Rightarrow> image" where
  "applyExifOrientation exifDecode getOrientation tagInt r img =
     (case exifDecode r of
        None \<Rightarrow> img
      | Some x \<Rightarrow>
         (case getOrientation x of
            None \<Rightarrow> img
          | Some orientTag \<Rightarrow>
             (case tagInt orientTag of
                None \<Rightarrow> img
              | Some orient \<Rightarrow>
                 (let bounds = Bounds img; w = Dx bounds; h = Dy bounds
                  in if orient = 1 then img
                     else if orient = 2 then flipHorizontal img
                     else if orient = 3 then rotate180 img
                     else if orient = 4 then flipVertical img
                     else if orient = 5 then
                       (let flipped = flipHorizontal img in rotate90CCW flipped h w)
                     else if orient = 6 then rotate90CW img h w
                     else if orient = 7 then
                       (let flipped = flipHorizontal img in rotate90CW flipped h w)
                     else if orient = 8 then rotate90CCW img h w
                     else img))))"

subsection \<open>Resizing\<close>

text \<open>
  \<open>draw.CatmullRom.Scale(dst, dr, src, sr, draw.Over, nil)\<close> belongs to
  \<open>golang.org/x/image/draw\<close>: the interpolation is a parameter that gives the pixels it leaves in
  \<open>dst\<close>. It writes through the \<open>draw.Image\<close> interface, so the bounds of \<open>dst\<close> stay.
\<close>

type_synonym scaler = "image \<Rightarrow> rectangle \<Rightarrow> image \<Rightarrow> rectangle \<Rightarrow> (int \<times> int \<Rightarrow> rgba)"

definition Scale :: "scaler \<Rightarrow> image \<Rightarrow> rectangle \<Rightarrow> image \<Rightarrow> rectangle \<Rightarrow> image" where
  "Scale interp dst dr src sr = dst\<lparr>Pix := interp dst dr src sr\<rparr>"

text \<open>
  The local \<open>cropRect\<close> of \<open>resizeImage\<close>, as a function of the source. Go's integer
  \<open>/\<close> truncates toward zero: \<open>sdiv\<close>.
\<close>

definition cropRect :: "image \<Rightarrow> rectangle" where
  "cropRect img =
     (let bounds = Bounds img; srcWidth = Dx bounds; srcHeight = Dy bounds
      in if srcWidth > srcHeight then
           (let offset = (srcWidth - srcHeight) sdiv 2
            in Rect offset 0 (offset + srcHeight) srcHeight)
         else
           (let offset = (srcHeight - srcWidth) sdiv 2
            in Rect 0 offset srcWidth (offset + srcWidth)))"

definition resizeImage :: "scaler \<Rightarrow> image \<Rightarrow> int \<Rightarrow> int \<Rightarrow> image" where
  "resizeImage interp img width height =
     (let dst = NewRGBA (Rect 0 0 width height)
      in Scale interp dst (Bounds dst) img (cropRect img))"

text \<open>
  \<open>int(f)\<close> on a \<open>float64\<close> truncates toward zero. The \<open>float64\<close> product and quotient of
  \<open>resizeCover\<close> are modelled by the exact real ones: for image dimensions the product
  stays below \<open>2^53\<close> and is exact, and rounding the quotient to the nearest \<open>float64\<close> does
  not reach the next integer, so the truncation is the one of the exact quotient.
\<close>

definition float64_to_int :: "real \<Rightarrow> int" where
  "float64_to_int f = (if 0 \<le> f then \<lfloor>f\<rfloor> else \<lceil>f\<rceil>)"

definition resizeCover :: "scaler \<Rightarrow> image \<Rightarrow> int \<Rightarrow> image" where
  "resizeCover interp img maxWidth =
     (let bounds = Bounds img; srcW = Dx bounds; srcH = Dy bounds
      in if srcW \<le> maxWidth then img
         else
           (let newW = maxWidth;
                newH = float64_to_int (real_of_int srcH * real_of_int maxWidth / real_of_int srcW);
                dst = NewRGBA (Rect 0 0 newW newH)
            in Scale interp dst (Bounds dst) img bounds))"

subsection \<open>The transforms as the specification words them\<close>

text \<open>
  A grid with its origin at \<open>(0, 0)\<close>: width, height and the pixel at each column and row.
  The named transforms are given by where each pixel of the result comes from.
\<close>

record grid =
  gw :: int
  gh :: int
  gpx :: "int \<Rightarrow> int \<Rightarrow> rgba"

definition grid_of :: "image \<Rightarrow> grid" where
  "grid_of img =
     \<lparr>gw = Dx (Bounds img), gh = Dy (Bounds img),
      gpx = (\<lambda>x y. At img (x + min_x (Bounds img)) (y + min_y (Bounds img)))\<rparr>"

definition spec_flip_horizontal :: "grid \<Rightarrow> grid" where
  "spec_flip_horizontal g = \<lparr>gw = gw g, gh = gh g, gpx = (\<lambda>x y. gpx g (gw g - 1 - x) y)\<rparr>"

definition spec_flip_vertical :: "grid \<Rightarrow> grid" where
  "spec_flip_vertical g = \<lparr>gw = gw g, gh = gh g, gpx = (\<lambda>x y. gpx g x (gh g - 1 - y))\<rparr>"

definition spec_rotate_180 :: "grid \<Rightarrow> grid" where
  "spec_rotate_180 g =
     \<lparr>gw = gw g, gh = gh g, gpx = (\<lambda>x y. gpx g (gw g - 1 - x) (gh g - 1 - y))\<rparr>"

text \<open>Clockwise: the top-left pixel of the source becomes the top-right one of the result.\<close>

definition spec_rotate_90_cw :: "grid \<Rightarrow> grid" where
  "spec_rotate_90_cw g = \<lparr>gw = gh g, gh = gw g, gpx = (\<lambda>x y. gpx g y (gh g - 1 - x))\<rparr>"

text \<open>Counter-clockwise: the top-left pixel of the source becomes the bottom-left one.\<close>

definition spec_rotate_90_ccw :: "grid \<Rightarrow> grid" where
  "spec_rotate_90_ccw g = \<lparr>gw = gh g, gh = gw g, gpx = (\<lambda>x y. gpx g (gw g - 1 - y) x)\<rparr>"

definition spec_correction :: "int \<Rightarrow> grid \<Rightarrow> grid" where
  "spec_correction t g =
     (if t = 1 then g
      else if t = 2 then spec_flip_horizontal g
      else if t = 3 then spec_rotate_180 g
      else if t = 4 then spec_flip_vertical g
      else if t = 5 then spec_rotate_90_ccw (spec_flip_horizontal g)
      else if t = 6 then spec_rotate_90_cw g
      else if t = 7 then spec_rotate_90_cw (spec_flip_horizontal g)
      else if t = 8 then spec_rotate_90_ccw g
      else g)"

text \<open>The orientation tag of the raw bytes, when the EXIF data and the tag are there.\<close>

definition orientation_tag ::
  "('r \<Rightarrow> 'x option) \<Rightarrow> ('x \<Rightarrow> 't option) \<Rightarrow> ('t \<Rightarrow> int option) \<Rightarrow> 'r \<Rightarrow> int option" where
  "orientation_tag exifDecode getOrientation tagInt r =
     Option.bind (exifDecode r) (\<lambda>x. Option.bind (getOrientation x) tagInt)"

text \<open>
  The inverse of a tag's correction, from the transforms of the code: the steps undone in
  reverse order, a quarter turn by the opposite quarter turn.
\<close>

definition inverse_correction :: "int \<Rightarrow> image \<Rightarrow> image" where
  "inverse_correction t img =
     (let w = Dx (Bounds img); h = Dy (Bounds img)
      in if t = 2 then flipHorizontal img
         else if t = 3 then rotate180 img
         else if t = 4 then flipVertical img
         else if t = 5 then flipHorizontal (rotate90CW img h w)
         else if t = 6 then rotate90CCW img h w
         else if t = 7 then flipHorizontal (rotate90CCW img h w)
         else if t = 8 then rotate90CW img h w
         else img)"

subsection \<open>A known test image\<close>

text \<open>Two pixels wide, one high: red on the left, blue on the right.\<close>

definition test_image :: image where
  "test_image =
     \<lparr>Bounds = Rect 0 0 2 1,
      Pix = (\<lambda>p. if p = (0, 0) then RGBA 255 0 0 255 else RGBA 0 0 255 255)\<rparr>"

section \<open>The document store and the engagement handlers\<close>

text \<open>
  \<open>primitive.ObjectID\<close> and \<open>time.Time\<close> are opaque to the handlers: natural numbers,
  with \<open>NilObjectID\<close> the zero id.
\<close>

type_synonym object_id = nat

type_synonym timestamp = nat

definition NilObjectID :: object_id where
  "NilObjectID = 0"

text \<open>
  The fields of \<open>models.BlogPost\<close> that the engagement handlers read or write. The
  counters are \<open>int64\<close> in Go and stay far from its bounds: integers.
\<close>

record blog_post =
  post_id :: object_id
  post_author_id :: object_id
  post_slug :: string
  post_status :: string
  view_count :: int
  unique_view_count :: int
  like_count :: int
  comment_count :: int

record post_view =
  pv_id :: object_id
  pv_post_id :: object_id
  pv_user_id :: object_id
  pv_viewed_at :: timestamp

record post_like =
  pl_id :: object_id
  pl_post_id :: object_id
  pl_user_id :: object_id
  pl_created_at :: timestamp

text \<open>A Go string is a sequence of bytes, as a \<open>string\<close> of HOL is; \<open>len\<close> is \<open>length\<close>.\<close>

record post_comment =
  pc_id :: object_id
  pc_post_id :: object_id
  pc_user_id :: object_id
  pc_content :: string
  pc_created_at :: timestamp
  pc_updated_at :: timestamp

record profile =
  pr_user_id :: object_id
  pr_name :: string
  pr_avatar :: string
  pr_role :: string
  pr_updated_at :: timestamp

record blog_image =
  bi_id :: object_id
  bi_uploader_id :: object_id
  bi_data :: string
  bi_size :: nat
  bi_created_at :: timestamp

text \<open>
  What a handler leaves outside the store: an increment of a process-wide counter (named
  by the function of \<open>middleware\<close> that makes it) and a structured log event (named by
  its message).
\<close>

datatype event = Metric string | Log string

text \<open>
  The collections, each in the order of its documents, and the events emitted so far.
\<close>

record state =
  posts :: "blog_post list"
  post_views :: "post_view list"
  post_likes :: "post_like list"
  post_comments :: "post_comment list"
  profiles :: "profile list"
  images :: "blog_image list"
  events :: "event list"

text \<open>
  The calls a handler makes to the store. A call may fail (a lost connection, a
  timeout): \<open>store_ok\<close> tells for each call of a request whether it succeeds, and a
  failed call changes nothing.
\<close>

datatype store_call =
    PostsFindOne
  | PostsIncViewCount
  | PostViewsUpsert
  | PostsIncUniqueViewCount
  | PostLikesDeleteOne
  | PostLikesInsertOne
  | PostsIncLikeCount
  | PostsFindUpdated
  | PostCommentsInsertOne
  | PostsIncCommentCount
  | ProfilesFind
  | ProfilesUpdateOne
  | ProfilesFindOne
  | ImagesInsertOne

record env =
  new_object_id :: object_id
  time_now :: timestamp
  store_ok :: "store_call \<Rightarrow> bool"

record request =
  req_user :: object_id
  req_slug :: string
  req_body :: "string option"

record comment_response =
  cr_comment :: post_comment
  cr_author_name :: string
  cr_author_avatar :: string

datatype response =
    HttpError nat string
  | Message string
  | LikeResponse bool int
  | Created comment_response
  | ProfileJson profile
  | UrlJson string

subsection \<open>The operations of a collection\<close>

text \<open>\<open>UpdateOne\<close> changes the first document that matches the filter.\<close>

fun update_one :: "('a \<Rightarrow> bool) \<Rightarrow> ('a \<Rightarrow> 'a) \<Rightarrow> 'a list \<Rightarrow> 'a list" where
  "update_one P f [] = []"
| "update_one P f (x # xs) = (if P x then f x # xs else x # update_one P f xs)"

text \<open>\<open>DeleteOne\<close> removes the first document that matches; the count is \<open>DeletedCount\<close>.\<close>

fun delete_one :: "('a \<Rightarrow> bool) \<Rightarrow> 'a list \<Rightarrow> nat \<times> 'a list" where
  "delete_one P [] = (0, [])"
| "delete_one P (x # xs) =
     (if P x then (1, xs) else (case delete_one P xs of (n, ys) \<Rightarrow> (n, x # ys)))"

definition emit :: "event \<Rightarrow> state \<Rightarrow> state" where
  "emit ev s = s\<lparr>events := events s @ [ev]\<rparr>"

text \<open>\<open>database.Posts().UpdateOne(ctx, {_id: id}, {$inc: ...})\<close>; \<open>None\<close> is the error.\<close>

definition Posts_UpdateOne ::
  "env \<Rightarrow> store_call \<Rightarrow> object_id \<Rightarrow> (blog_post \<Rightarrow> blog_post) \<Rightarrow> state \<Rightarrow> state option" where
  "Posts_UpdateOne e call i f s =
     (if store_ok e call
      then Some (s\<lparr>posts := update_one (\<lambda>p. post_id p = i) f (posts s)\<rparr>)
      else None)"

text \<open>A call whose result the handler drops: the state stays as it was when it fails.\<close>

definition ignoring_error :: "state option \<Rightarrow> state \<Rightarrow> state" where
  "ignoring_error res s = (case res of None \<Rightarrow> s | Some s' \<Rightarrow> s')"

text \<open>
  \<open>UpdateOne\<close> with \<open>$setOnInsert\<close> and \<open>SetUpsert(true)\<close> on \<open>post_views\<close>: a matching
  marker is left as it is (\<open>UpsertedCount = 0\<close>), otherwise the marker is inserted
  (\<open>UpsertedCount = 1\<close>).
\<close>

definition PostViews_Upsert ::
  "env \<Rightarrow> object_id \<Rightarrow> object_id \<Rightarrow> state \<Rightarrow> (nat \<times> state) option" where
  "PostViews_Upsert e pid uid s =
     (if \<not> store_ok e PostViewsUpsert then None
      else case find (\<lambda>v. pv_post_id v = pid \<and> pv_user_id v = uid) (post_views s) of
             Some v \<Rightarrow> Some (0, s)
           | None \<Rightarrow>
               Some (1, s\<lparr>post_views := post_views s @
                          [\<lparr>pv_id = new_object_id e, pv_post_id = pid, pv_user_id = uid,
                            pv_viewed_at = time_now e\<rparr>]\<rparr>))"

definition PostLikes_DeleteOne ::
  "env \<Rightarrow> object_id \<Rightarrow> object_id \<Rightarrow> state \<Rightarrow> (nat \<times> state) option" where
  "PostLikes_DeleteOne e pid uid s =
     (if \<not> store_ok e PostLikesDeleteOne then None
      else case delete_one (\<lambda>l. pl_post_id l = pid \<and> pl_user_id l = uid) (post_likes s) of
             (n, ls) \<Rightarrow> Some (n, s\<lparr>post_likes := ls\<rparr>))"

text \<open>
  \<open>InsertOne\<close> on \<open>post_likes\<close>: the unique index on \<open>(post_id, user_id)\<close> refuses a
  second marker of the same pair with a duplicate-key error.
\<close>

definition PostLikes_InsertOne :: "env \<Rightarrow> post_like \<Rightarrow> state \<Rightarrow> state option" where
  "PostLikes_InsertOne e l s =
     (if \<not> store_ok e PostLikesInsertOne then None
      else if list_ex (\<lambda>m. pl_post_id m = pl_post_id l \<and> pl_user_id m = pl_user_id l)
                (post_likes s) then None
      else Some (s\<lparr>post_likes := post_likes s @ [l]\<rparr>))"

definition PostComments_InsertOne :: "env \<Rightarrow> post_comment \<Rightarrow> state \<Rightarrow> state option" where
  "PostComments_InsertOne e c s =
     (if \<not> store_ok e PostCommentsInsertOne then None
      else Some (s\<lparr>post_comments := post_comments s @ [c]\<rparr>))"

subsection \<open>\<open>engagement.go\<close>\<close>

definition resolvePostBySlug :: "env \<Rightarrow> state \<Rightarrow> string \<Rightarrow> blog_post option" where
  "resolvePostBySlug e s sl =
     (if store_ok e PostsFindOne
      then find (\<lambda>p. post_slug p = sl \<and> post_status p = ''published'') (posts s)
      else None)"

text \<open>
  The profiles are collected in a Go map keyed by the user id: of two profiles of one
  user the later one stays.
\<close>

definition enrichCommentsWithAuthor ::
  "env \<Rightarrow> state \<Rightarrow> post_comment list \<Rightarrow> comment_response list" where
  "enrichCommentsWithAuthor e s comments =
     (if comments = [] then []
      else
        (let ids = remdups (map pc_user_id comments);
             found = (if store_ok e ProfilesFind
                      then filter (\<lambda>p. pr_user_id p \<in> set ids) (profiles s) else [])
         in map (\<lambda>comment.
               (case find (\<lambda>p. pr_user_id p = pc_user_id comment) (rev found) of
                  Some p \<Rightarrow> \<lparr>cr_comment = comment, cr_author_name = pr_name p,
                              cr_author_avatar = pr_avatar p\<rparr>
                | None \<Rightarrow> \<lparr>cr_comment = comment, cr_author_name = [],
                            cr_author_avatar = []\<rparr>))
             comments))"

definition RecordView :: "env \<Rightarrow> request \<Rightarrow> state \<Rightarrow> response \<times> state" where
  "RecordView e r s =
     (let slug = req_slug r
      in if slug = [] then (HttpError 400 ''Slug is required'', s)
         else
           (case resolvePostBySlug e s slug of
              None \<Rightarrow> (HttpError 404 ''Post not found'', s)
            | Some post \<Rightarrow>
               (case Posts_UpdateOne e PostsIncViewCount (post_id post)
                       (\<lambda>p. p\<lparr>view_count := view_count p + 1\<rparr>) s of
                  None \<Rightarrow> (HttpError 500 ''Error recording view'', s)
                | Some s1 \<Rightarrow>
                   (let s2 = emit (Metric ''IncPostView'') s1;
                        userID = req_user r;
                        s3 = (if userID \<noteq> NilObjectID then
                                (case PostViews_Upsert e (post_id post) userID s2 of
                                   None \<Rightarrow> s2
                                 | Some (upsertedCount, s') \<Rightarrow>
                                     if upsertedCount > 0 then
                                       ignoring_error
                                         (Posts_UpdateOne e PostsIncUniqueViewCount (post_id post)
                                            (\<lambda>p. p\<lparr>unique_view_count := unique_view_count p + 1\<rparr>)
                                            s') s'
                                     else s')
                              else s2);
                        s4 = emit (Log ''post_view_recorded'') s3
                    in (Message ''View recorded'', s4)))))"

text \<open>
  The tail of \<open>ToggleLike\<close>: the post is read again by its id, the error of the read is
  dropped, and a post that was not decoded leaves the zero \<open>LikeCount\<close>.
\<close>

definition likeResponse :: "env \<Rightarrow> object_id \<Rightarrow> bool \<Rightarrow> state \<Rightarrow> response \<times> state" where
  "likeResponse e pid liked s =
     (let updated = (if store_ok e PostsFindUpdated
                     then find (\<lambda>p. post_id p = pid) (posts s) else None)
      in (LikeResponse liked (case updated of None \<Rightarrow> 0 | Some p \<Rightarrow> like_count p), s))"

definition ToggleLike :: "env \<Rightarrow> request \<Rightarrow> state \<Rightarrow> response \<times> state" where
  "ToggleLike e r s =
     (let userID = req_user r
      in if userID = NilObjectID then (HttpError 401 ''Unauthorized'', s)
         else
           (let slug = req_slug r
            in if slug = [] then (HttpError 400 ''Slug is required'', s)
               else
                 (case resolvePostBySlug e s slug of
                    None \<Rightarrow> (HttpError 404 ''Post not found'', s)
                  | Some post \<Rightarrow>
                     (case PostLikes_DeleteOne e (post_id post) userID s of
                        None \<Rightarrow> (HttpError 500 ''Error toggling like'', s)
                      | Some (deletedCount, s1) \<Rightarrow>
                         if deletedCount > 0 then
                           (let s2 = ignoring_error
                                       (Posts_UpdateOne e PostsIncLikeCount (post_id post)
                                          (\<lambda>p. p\<lparr>like_count := like_count p - 1\<rparr>) s1) s1;
                                s3 = emit (Metric ''IncPostUnlike'') s2;
                                s4 = emit (Log ''post_unliked'') s3
                            in likeResponse e (post_id post) False s4)
                         else
                           (case PostLikes_InsertOne e
                                   \<lparr>pl_id = new_object_id e, pl_post_id = post_id post,
                                    pl_user_id = userID, pl_created_at = time_now e\<rparr> s1 of
                              None \<Rightarrow> (HttpError 500 ''Error toggling like'', s1)
                            | Some s2 \<Rightarrow>
                               (let s3 = ignoring_error
                                           (Posts_UpdateOne e PostsIncLikeCount (post_id post)
                                              (\<lambda>p. p\<lparr>like_count := like_count p + 1\<rparr>) s2) s2;
                                    s4 = emit (Metric ''IncPostLike'') s3;
                                    s5 = emit (Log ''post_liked'') s4
                                in likeResponse e (post_id post) True s5))))))"

definition CreateComment :: "env \<Rightarrow> request \<Rightarrow> state \<Rightarrow> response \<times> state" where
  "CreateComment e r s =
     (let userID = req_user r
      in if userID = NilObjectID then (HttpError 401 ''Unauthorized'', s)
         else
           (let slug = req_slug r
            in if slug = [] then (HttpError 400 ''Slug is required'', s)
               else
                 (case req_body r of
                    None \<Rightarrow> (HttpError 400 ''Invalid request body'', s)
                  | Some content \<Rightarrow>
                     if length content < 1 \<or> length content > 2000 then
                       (HttpError 400 ''Content must be between 1 and 2000 characters'', s)
                     else
                       (case resolvePostBySlug e s slug of
                          None \<Rightarrow> (HttpError 404 ''Post not found'', s)
                        | Some post \<Rightarrow>
                           (let now = time_now e;
                                comment = \<lparr>pc_id = new_object_id e, pc_post_id = post_id post,
                                           pc_user_id = userID, pc_content = content,
                                           pc_created_at = now, pc_updated_at = now\<rparr>
                            in case PostComments_InsertOne e comment s of
                                 None \<Rightarrow> (HttpError 500 ''Error creating comment'', s)
                               | Some s1 \<Rightarrow>
                                  (let s2 = ignoring_error
                                              (Posts_UpdateOne e PostsIncCommentCount (post_id post)
                                                 (\<lambda>p. p\<lparr>comment_count := comment_count p + 1\<rparr>)
                                                 s1) s1;
                                       s3 = emit (Metric ''IncCommentCreated'') s2;
                                       s4 = emit (Log ''comment_created'') s3;
                                       responses = enrichCommentsWithAuthor e s4 [comment]
                                   in (Created (case responses of
                                                  resp # _ \<Rightarrow> resp
                                                | [] \<Rightarrow> \<lparr>cr_comment = comment, cr_author_name = [],
                                                          cr_author_avatar = []\<rparr>),
                                       s4)))))))"


subsection \<open>Reading the store in the statements\<close>

definition post_by_id :: "state \<Rightarrow> object_id \<Rightarrow> blog_post option" where
  "post_by_id s i = find (\<lambda>p. post_id p = i) (posts s)"

definition has_view :: "state \<Rightarrow> object_id \<Rightarrow> object_id \<Rightarrow> bool" where
  "has_view s pid uid = list_ex (\<lambda>v. pv_post_id v = pid \<and> pv_user_id v = uid) (post_views s)"

definition has_like :: "state \<Rightarrow> object_id \<Rightarrow> object_id \<Rightarrow> bool" where
  "has_like s pid uid = list_ex (\<lambda>l. pl_post_id l = pid \<and> pl_user_id l = uid) (post_likes s)"

text \<open>
  What the store itself guarantees: \<open>_id\<close> is unique in \<open>posts\<close>, and the unique indexes
  of \<open>EnsureIndexes\<close> allow one view marker and one like marker for each pair of a post
  and a user.
\<close>

definition wf_store :: "state \<Rightarrow> bool" where
  "wf_store s \<longleftrightarrow>
     distinct (map post_id (posts s))
     \<and> distinct (map (\<lambda>v. (pv_post_id v, pv_user_id v)) (post_views s))
     \<and> distinct (map (\<lambda>l. (pl_post_id l, pl_user_id l)) (post_likes s))"

text \<open>The published post of a slug: the filter of \<open>resolvePostBySlug\<close>.\<close>

definition published_as :: "string \<Rightarrow> blog_post \<Rightarrow> bool" where
  "published_as sl p \<longleftrightarrow> post_slug p = sl \<and> post_status p = ''published''"

text \<open>The same request sent once for each environment of the list, one after the other.\<close>

fun run :: "(env \<Rightarrow> request \<Rightarrow> state \<Rightarrow> response \<times> state) \<Rightarrow> env list \<Rightarrow> request \<Rightarrow> state
    \<Rightarrow> response list \<times> state" where
  "run handler [] r s = ([], s)"
| "run handler (e # es) r s =
     (case handler e r s of
        (resp, s1) \<Rightarrow> (case run handler es r s1 of (resps, s2) \<Rightarrow> (resp # resps, s2)))"

text \<open>Every call of the request to the store succeeds.\<close>

definition store_up :: "env \<Rightarrow> bool" where
  "store_up e \<longleftrightarrow> (\<forall>call. store_ok e call)"

text \<open>
  The change of \<open>like_count\<close> after \<open>n\<close> toggles, from the state \<open>liked\<close>.
\<close>

definition like_delta :: "bool \<Rightarrow> nat \<Rightarrow> int" where
  "like_delta liked n = (if even n then 0 else if liked then - 1 else 1)"

text \<open>The \<open>liked\<close> field of a like response.\<close>

definition resp_liked :: "response \<Rightarrow> bool option" where
  "resp_liked resp = (case resp of LikeResponse liked n \<Rightarrow> Some liked | _ \<Rightarrow> None)"

text \<open>
  The characters of a Go string are the code points of its UTF-8 bytes, as
  \<open>utf8.RuneCountInString\<close> counts them: in well-formed UTF-8 every byte but the
  continuation bytes \<open>0x80\<close> to \<open>0xBF\<close> starts one.
\<close>

definition utf8_continuation :: "char \<Rightarrow> bool" where
  "utf8_continuation c \<longleftrightarrow> 128 \<le> (of_char c :: nat) \<and> (of_char c :: nat) < 192"

definition rune_count :: "string \<Rightarrow> nat" where
  "rune_count s = length (filter (\<lambda>c. \<not> utf8_continuation c) s)"

text \<open>The letter e with an acute accent, U+00E9: two bytes.\<close>

definition e_acute :: string where
  "e_acute = [CHR 0xC3, CHR 0xA9]"

subsection \<open>A small store for the examples\<close>

definition test_post :: blog_post where
  "test_post =
     \<lparr>post_id = 1, post_author_id = 2, post_slug = ''hello'', post_status = ''published'',
      view_count = 10, unique_view_count = 3, like_count = 5, comment_count = 0\<rparr>"

definition test_store :: state where
  "test_store =
     \<lparr>posts = [test_post], post_views = [], post_likes = [], post_comments = [],
      profiles = [], images = [], events = []\<rparr>"

definition env_ok :: env where
  "env_ok = \<lparr>new_object_id = 100, time_now = 1000, store_ok = (\<lambda>call. True)\<rparr>"

definition test_request :: request where
  "test_request = \<lparr>req_user = 7, req_slug = ''hello'', req_body = None\<rparr>"

definition env_read_down :: env where
  "env_read_down =
     \<lparr>new_object_id = 100, time_now = 1000, store_ok = (\<lambda>call. call \<noteq> PostsFindUpdated)\<rparr>"

definition env_count_down :: env where
  "env_count_down =
     \<lparr>new_object_id = 100, time_now = 1000, store_ok = (\<lambda>call. call \<noteq> PostsIncLikeCount)\<rparr>"

definition env_marker_down :: env where
  "env_marker_down =
     \<lparr>new_object_id = 100, time_now = 1000, store_ok = (\<lambda>call. call \<noteq> PostViewsUpsert)\<rparr>"

section \<open>The upload handlers\<close>

text \<open>
  What the handlers take from libraries: the image decoder, the EXIF reader, the
  interpolation, the JPEG encoder (\<open>None\<close> is its error), base64, the content sniffer
  \<open>http.DetectContentType\<close> and \<open>ObjectID.Hex\<close>. The decoded EXIF data and the tag
  are kept as the bytes that hold them.
\<close>

record media_lib =
  lib_decode :: "string \<Rightarrow> image option"
  lib_exif_decode :: "string \<Rightarrow> string option"
  lib_get_orientation :: "string \<Rightarrow> string option"
  lib_tag_int :: "string \<Rightarrow> int option"
  lib_interp :: scaler
  lib_jpeg_encode :: "image \<Rightarrow> nat \<Rightarrow> string option"
  lib_base64 :: "string \<Rightarrow> string"
  lib_detect_content_type :: "string \<Rightarrow> string"
  lib_hex :: "object_id \<Rightarrow> string"

text \<open>
  A multipart upload: the caller, whether \<open>ParseMultipartForm\<close> accepts the body (it
  refuses one over the 5 MiB limit), the file of the handler's form field with its
  declared \<open>Content-Type\<close> and its bytes, and whether \<open>io.ReadAll\<close> reads it.
\<close>

record upload_request =
  up_user :: object_id
  up_parse_ok :: bool
  up_file :: "(string \<times> string) option"
  up_read_ok :: bool

definition zero_profile :: profile where
  "zero_profile = \<lparr>pr_user_id = 0, pr_name = [], pr_avatar = [], pr_role = [], pr_updated_at = 0\<rparr>"

text \<open>\<open>database.Profiles().UpdateOne\<close> by \<open>user_id\<close>, with its \<open>MatchedCount\<close>.\<close>

definition Profiles_UpdateOne ::
  "env \<Rightarrow> object_id \<Rightarrow> (profile \<Rightarrow> profile) \<Rightarrow> state \<Rightarrow> (nat \<times> state) option" where
  "Profiles_UpdateOne e uid f s =
     (if \<not> store_ok e ProfilesUpdateOne then None
      else Some (if list_ex (\<lambda>p. pr_user_id p = uid) (profiles s) then 1 else 0,
                 s\<lparr>profiles := update_one (\<lambda>p. pr_user_id p = uid) f (profiles s)\<rparr>))"

definition Images_InsertOne :: "env \<Rightarrow> blog_image \<Rightarrow> state \<Rightarrow> state option" where
  "Images_InsertOne e doc s =
     (if \<not> store_ok e ImagesInsertOne then None
      else Some (s\<lparr>images := images s @ [doc]\<rparr>))"

text \<open>\<open>UploadAvatar\<close> of \<open>users.go\<close>. The message of a store error is the error's own text.\<close>

definition UploadAvatar ::
  "media_lib \<Rightarrow> env \<Rightarrow> upload_request \<Rightarrow> state \<Rightarrow> response \<times> state" where
  "UploadAvatar lib e r s =
     (let userID = up_user r
      in if userID = NilObjectID then (HttpError 401 ''Unauthorized'', s)
         else if \<not> up_parse_ok r then (HttpError 413 ''Image too large (max 5MB)'', s)
         else
           (case up_file r of
              None \<Rightarrow> (HttpError 400 ''No image provided'', s)
            | Some (contentType, imgData) \<Rightarrow>
               if contentType \<noteq> ''image/jpeg'' \<and> contentType \<noteq> ''image/png'' then
                 (HttpError 400 ''Only JPEG and PNG images are allowed'', s)
               else if \<not> up_read_ok r then (HttpError 400 ''Failed to read image'', s)
               else
                 (case lib_decode lib imgData of
                    None \<Rightarrow> (HttpError 400 ''Invalid image format'', s)
                  | Some decoded \<Rightarrow>
                     (let img = applyExifOrientation (lib_exif_decode lib)
                                  (lib_get_orientation lib) (lib_tag_int lib) imgData decoded;
                          resized = resizeImage (lib_interp lib) img 256 256
                      in case lib_jpeg_encode lib resized 80 of
                           None \<Rightarrow> (HttpError 500 ''Failed to process image'', s)
                         | Some buf \<Rightarrow>
                            (let base64Img = ''data:image/jpeg;base64,'' @ lib_base64 lib buf
                             in case Profiles_UpdateOne e userID
                                       (\<lambda>p. p\<lparr>pr_avatar := base64Img,
                                              pr_updated_at := time_now e\<rparr>) s of
                                  None \<Rightarrow> (HttpError 500 ''store error'', s)
                                | Some (matchedCount, s1) \<Rightarrow>
                                   if matchedCount = 0 then
                                     (HttpError 404 ''Profile not found'', s1)
                                   else
                                     (let profile =
                                            (case (if store_ok e ProfilesFindOne
                                                   then find (\<lambda>p. pr_user_id p = userID)
                                                          (profiles s1)
                                                   else None) of
                                               None \<Rightarrow> zero_profile
                                             | Some p \<Rightarrow> p);
                                          s2 = emit (Metric ''IncAvatarUpload'') s1;
                                          s3 = emit (Log ''avatar_uploaded'') s2
                                      in (ProfileJson profile, s3)))))))"

text \<open>\<open>UploadPostImage\<close> of \<open>blog.go\<close>.\<close>

definition UploadPostImage ::
  "media_lib \<Rightarrow> env \<Rightarrow> upload_request \<Rightarrow> state \<Rightarrow> response \<times> state" where
  "UploadPostImage lib e r s =
     (let userID = up_user r
      in if userID = NilObjectID then (HttpError 401 ''Unauthorized'', s)
         else if \<not> up_parse_ok r then (HttpError 413 ''Image too large (max 5MB)'', s)
         else
           (case up_file r of
              None \<Rightarrow>
                (HttpError 400
                   (''No image provided. Use field name '' @ [CHR 0x27] @ ''image'' @ [CHR 0x27]),
                 s)
            | Some (contentType, imgData) \<Rightarrow>
               if \<not> up_read_ok r then (HttpError 400 ''Failed to read image'', s)
               else
                 (let detectedType = lib_detect_content_type lib imgData
                  in if detectedType \<noteq> ''image/jpeg'' \<and> detectedType \<noteq> ''image/png''
                          \<and> detectedType \<noteq> ''image/webp'' then
                       (HttpError 400 ''Only JPEG, PNG and WebP images are allowed'', s)
                     else
                       (case lib_decode lib imgData of
                          None \<Rightarrow> (HttpError 400 ''Invalid image format'', s)
                        | Some img \<Rightarrow>
                           (let resized = resizeCover (lib_interp lib) img 800
                            in case lib_jpeg_encode lib resized 65 of
                                 None \<Rightarrow> (HttpError 500 ''Failed to process image'', s)
                               | Some buf \<Rightarrow>
                                  (let base64Img = lib_base64 lib buf;
                                       imgDoc = \<lparr>bi_id = new_object_id e, bi_uploader_id = userID,
                                                 bi_data = base64Img, bi_size = length buf,
                                                 bi_created_at = time_now e\<rparr>
                                   in case Images_InsertOne e imgDoc s of
                                        None \<Rightarrow> (HttpError 500 ''Error saving image'', s)
                                      | Some s1 \<Rightarrow>
                                         (let imageURL = ''/api/v1/blog/images/''
                                                @ lib_hex lib (bi_id imgDoc);
                                              s2 = emit (Log ''blog_image_uploaded'') s1
                                          in (UrlJson imageURL, s2))))))))"

subsection \<open>Reading the outcome of an upload\<close>

definition is_error :: "response \<Rightarrow> bool" where
  "is_error resp = (case resp of HttpError code msg \<Rightarrow> True | _ \<Rightarrow> False)"

definition is_metric :: "event \<Rightarrow> bool" where
  "is_metric ev = (case ev of Metric m \<Rightarrow> True | Log m \<Rightarrow> False)"

subsection \<open>An upload for the examples\<close>

definition test_lib :: media_lib where
  "test_lib =
     \<lparr>lib_decode = (\<lambda>d. if d = [] then None else Some test_image),
      lib_exif_decode = (\<lambda>d. None),
      lib_get_orientation = (\<lambda>x. None),
      lib_tag_int = (\<lambda>t. None),
      lib_interp = (\<lambda>dst dr src sr p. zero_rgba),
      lib_jpeg_encode = (\<lambda>img quality. Some ''jpeg''),
      lib_base64 = (\<lambda>b. b),
      lib_detect_content_type = (\<lambda>d. ''image/png''),
      lib_hex = (\<lambda>i. ''0064'')\<rparr>"

definition test_upload :: upload_request where
  "test_upload =
     \<lparr>up_user = 7, up_parse_ok = True, up_file = Some (''image/png'', ''png''),
      up_read_ok = True\<rparr>"

definition test_profiles :: state where
  "test_profiles =
     test_store\<lparr>profiles :=
       [\<lparr>pr_user_id = 7, pr_name = ''Alice'', pr_avatar = [], pr_role = ''user'',
         pr_updated_at = 0\<rparr>]\<rparr>"

section \<open>Properties of the transforms\<close>

lemma nested_fold_flat:
  "fold (\<lambda>y d. fold (\<lambda>x d. F x y d) xs d) ys d
     = fold (\<lambda>p d. F (snd p) (fst p) d) (List.product ys xs) d"
  by (induction ys arbitrary: d) (simp_all add: fold_map comp_def)

lemma Bounds_Set_px [simp]: "Bounds (Set_px d x y c) = Bounds d"
  by (simp add: Set_px_def)

lemma Bounds_fold_Set_px [simp]:
  "Bounds (fold (\<lambda>p d. Set_px d (tx p) (ty p) (c p)) ps d) = Bounds d"
  by (induction ps arbitrary: d) simp_all

lemma Pix_fold_Set_px_miss:
  "\<forall>p\<in>set ps. (tx p, ty p) \<noteq> q \<Longrightarrow>
   Pix (fold (\<lambda>p d. Set_px d (tx p) (ty p) (c p)) ps d) q = Pix d q"
  by (induction ps arbitrary: d) (auto simp: Set_px_def)

lemma Pix_fold_Set_px_hit:
  "\<exists>p\<in>set ps. (tx p, ty p) = (u, v) \<Longrightarrow>
   \<forall>p\<in>set ps. (tx p, ty p) = (u, v) \<longrightarrow> c p = k \<Longrightarrow> In_rect u v (Bounds d) \<Longrightarrow>
   Pix (fold (\<lambda>p d. Set_px d (tx p) (ty p) (c p)) ps d) (u, v) = k"
proof (induction ps arbitrary: d)
  case Nil
  then show ?case by simp
next
  case (Cons a ps)
  show ?case
  proof (cases "\<exists>p\<in>set ps. (tx p, ty p) = (u, v)")
    case True
    then show ?thesis using Cons.IH [of "Set_px d (tx a) (ty a) (c a)"] Cons.prems
      by simp
  next
    case False
    then have a: "tx a = u" "ty a = v" "c a = k" using Cons.prems by auto
    from False have "\<forall>p\<in>set ps. (tx p, ty p) \<noteq> (u, v)" by blast
    then have "Pix (fold (\<lambda>p d. Set_px d (tx p) (ty p) (c p)) ps (Set_px d u v k)) (u, v)
        = Pix (Set_px d u v k) (u, v)"
      by (rule Pix_fold_Set_px_miss)
    then show ?thesis using a Cons.prems(3) by (simp add: Set_px_def)
  qed
qed

text \<open>
  A pixel loop whose targets \<open>(tx x y, ty x y)\<close> run once through the rectangle \<open>B\<close>
  fills a fresh image with the colour of the source position of each target.
\<close>

lemma pixel_loop:
  assumes inb: "\<And>x y. 0 \<le> x \<Longrightarrow> x < w \<Longrightarrow> 0 \<le> y \<Longrightarrow> y < h \<Longrightarrow> In_rect (tx x y) (ty x y) B"
    and inv: "\<And>x y. 0 \<le> x \<Longrightarrow> x < w \<Longrightarrow> 0 \<le> y \<Longrightarrow> y < h \<Longrightarrow>
                sx (tx x y) (ty x y) = x \<and> sy (tx x y) (ty x y) = y"
    and sur: "\<And>u v. In_rect u v B \<Longrightarrow>
                0 \<le> sx u v \<and> sx u v < w \<and> 0 \<le> sy u v \<and> sy u v < h \<and>
                tx (sx u v) (sy u v) = u \<and> ty (sx u v) (sy u v) = v"
  shows "fold (\<lambda>y dst. fold (\<lambda>x dst. Set_px dst (tx x y) (ty x y) (c x y)) [0..w - 1] dst)
           [0..h - 1] (NewRGBA B)
         = \<lparr>Bounds = B,
            Pix = (\<lambda>(u, v). if In_rect u v B then c (sx u v) (sy u v) else zero_rgba)\<rparr>"
    (is "?L = ?R")
proof -
  let ?ps = "List.product [0..h - 1] [0..w - 1]"
  let ?f = "\<lambda>p d. Set_px d (tx (snd p) (fst p)) (ty (snd p) (fst p)) (c (snd p) (fst p))"
  have flat: "?L = fold ?f ?ps (NewRGBA B)"
    by (rule nested_fold_flat)
  have b: "Bounds ?L = B" unfolding flat by (simp add: NewRGBA_def)
  have p: "Pix ?L (u, v) = (if In_rect u v B then c (sx u v) (sy u v) else zero_rgba)" for u v
  proof (cases "In_rect u v B")
    case True
    from sur [OF True] have s: "0 \<le> sx u v" "sx u v < w" "0 \<le> sy u v" "sy u v < h"
      "tx (sx u v) (sy u v) = u" "ty (sx u v) (sy u v) = v" by simp_all
    have ex: "\<exists>p\<in>set ?ps. (tx (snd p) (fst p), ty (snd p) (fst p)) = (u, v)"
      using s by (intro bexI [of _ "(sy u v, sx u v)"]) simp_all
    have un: "\<forall>p\<in>set ?ps. (tx (snd p) (fst p), ty (snd p) (fst p)) = (u, v)
                \<longrightarrow> c (snd p) (fst p) = c (sx u v) (sy u v)"
    proof (intro ballI impI)
      fix p assume "p \<in> set ?ps" and e: "(tx (snd p) (fst p), ty (snd p) (fst p)) = (u, v)"
      then have r: "0 \<le> snd p" "snd p < w" "0 \<le> fst p" "fst p < h" by auto
      from inv [OF r] e have "sx u v = snd p" "sy u v = fst p" by auto
      then show "c (snd p) (fst p) = c (sx u v) (sy u v)" by simp
    qed
    have "Pix (fold ?f ?ps (NewRGBA B)) (u, v) = c (sx u v) (sy u v)"
      by (rule Pix_fold_Set_px_hit [OF ex un]) (simp add: NewRGBA_def True)
    then show ?thesis using True flat by simp
  next
    case False
    have "\<forall>p\<in>set ?ps. (tx (snd p) (fst p), ty (snd p) (fst p)) \<noteq> (u, v)"
    proof
      fix p assume "p \<in> set ?ps"
      then have r: "0 \<le> snd p" "snd p < w" "0 \<le> fst p" "fst p < h" by auto
      from inb [OF r] False show "(tx (snd p) (fst p), ty (snd p) (fst p)) \<noteq> (u, v)" by auto
    qed
    then have "Pix (fold ?f ?ps (NewRGBA B)) (u, v) = Pix (NewRGBA B) (u, v)"
      by (rule Pix_fold_Set_px_miss)
    then show ?thesis using False flat by (simp add: NewRGBA_def)
  qed
  show ?thesis
    by (rule image.equality) (simp_all add: b fun_eq_iff p)
qed

lemma Rect_origin:
  "0 \<le> w \<Longrightarrow> 0 \<le> h \<Longrightarrow> Rect 0 0 w h = \<lparr>min_x = 0, min_y = 0, max_x = w, max_y = h\<rparr>"
  by (simp add: Rect_def)

lemma wf_rect_dims: "wf_rect r \<Longrightarrow> 0 \<le> Dx r \<and> 0 \<le> Dy r"
  by (simp add: wf_rect_def Dx_def Dy_def)

lemma flipHorizontal_eq:
  assumes "wf_rect (Bounds img)"
  shows "flipHorizontal img =
    \<lparr>Bounds = \<lparr>min_x = 0, min_y = 0, max_x = Dx (Bounds img), max_y = Dy (Bounds img)\<rparr>,
     Pix = (\<lambda>(u, v). if 0 \<le> u \<and> u < Dx (Bounds img) \<and> 0 \<le> v \<and> v < Dy (Bounds img)
            then At img (Dx (Bounds img) - 1 - u + min_x (Bounds img)) (v + min_y (Bounds img))
            else zero_rgba)\<rparr>"
proof -
  have d: "0 \<le> Dx (Bounds img)" "0 \<le> Dy (Bounds img)"
    using assms by (simp_all add: wf_rect_dims)
  show ?thesis
    unfolding flipHorizontal_def Let_def Rect_origin [OF d]
    by (subst pixel_loop [where sx = "\<lambda>u v. Dx (Bounds img) - 1 - u" and sy = "\<lambda>u v. v"])
       (auto simp: In_rect_def fun_eq_iff)
qed

lemma flipVertical_eq:
  assumes "wf_rect (Bounds img)"
  shows "flipVertical img =
    \<lparr>Bounds = \<lparr>min_x = 0, min_y = 0, max_x = Dx (Bounds img), max_y = Dy (Bounds img)\<rparr>,
     Pix = (\<lambda>(u, v). if 0 \<le> u \<and> u < Dx (Bounds img) \<and> 0 \<le> v \<and> v < Dy (Bounds img)
            then At img (u + min_x (Bounds img)) (Dy (Bounds img) - 1 - v + min_y (Bounds img))
            else zero_rgba)\<rparr>"
proof -
  have d: "0 \<le> Dx (Bounds img)" "0 \<le> Dy (Bounds img)"
    using assms by (simp_all add: wf_rect_dims)
  show ?thesis
    unfolding flipVertical_def Let_def Rect_origin [OF d]
    by (subst pixel_loop [where sx = "\<lambda>u v. u" and sy = "\<lambda>u v. Dy (Bounds img) - 1 - v"])
       (auto simp: In_rect_def fun_eq_iff)
qed

lemma rotate180_eq:
  assumes "wf_rect (Bounds img)"
  shows "rotate180 img =
    \<lparr>Bounds = \<lparr>min_x = 0, min_y = 0, max_x = Dx (Bounds img), max_y = Dy (Bounds img)\<rparr>,
     Pix = (\<lambda>(u, v). if 0 \<le> u \<and> u < Dx (Bounds img) \<and> 0 \<le> v \<and> v < Dy (Bounds img)
            then At img (Dx (Bounds img) - 1 - u + min_x (Bounds img))
                        (Dy (Bounds img) - 1 - v + min_y (Bounds img))
            else zero_rgba)\<rparr>"
proof -
  have d: "0 \<le> Dx (Bounds img)" "0 \<le> Dy (Bounds img)"
    using assms by (simp_all add: wf_rect_dims)
  show ?thesis
    unfolding rotate180_def Let_def Rect_origin [OF d]
    by (subst pixel_loop [where sx = "\<lambda>u v. Dx (Bounds img) - 1 - u"
                            and sy = "\<lambda>u v. Dy (Bounds img) - 1 - v"])
       (auto simp: In_rect_def fun_eq_iff)
qed

lemma rotate90CW_eq:
  assumes "wf_rect (Bounds img)"
  shows "rotate90CW img (Dy (Bounds img)) (Dx (Bounds img)) =
    \<lparr>Bounds = \<lparr>min_x = 0, min_y = 0, max_x = Dy (Bounds img), max_y = Dx (Bounds img)\<rparr>,
     Pix = (\<lambda>(u, v). if 0 \<le> u \<and> u < Dy (Bounds img) \<and> 0 \<le> v \<and> v < Dx (Bounds img)
            then At img (v + min_x (Bounds img)) (Dy (Bounds img) - 1 - u + min_y (Bounds img))
            else zero_rgba)\<rparr>"
proof -
  have d: "0 \<le> Dy (Bounds img)" "0 \<le> Dx (Bounds img)"
    using assms by (simp_all add: wf_rect_dims)
  show ?thesis
    unfolding rotate90CW_def Let_def Rect_origin [OF d]
    by (subst pixel_loop [where sx = "\<lambda>u v. v" and sy = "\<lambda>u v. Dy (Bounds img) - 1 - u"])
       (auto simp: In_rect_def fun_eq_iff)
qed

lemma rotate90CCW_eq:
  assumes "wf_rect (Bounds img)"
  shows "rotate90CCW img (Dy (Bounds img)) (Dx (Bounds img)) =
    \<lparr>Bounds = \<lparr>min_x = 0, min_y = 0, max_x = Dy (Bounds img), max_y = Dx (Bounds img)\<rparr>,
     Pix = (\<lambda>(u, v). if 0 \<le> u \<and> u < Dy (Bounds img) \<and> 0 \<le> v \<and> v < Dx (Bounds img)
            then At img (Dx (Bounds img) - 1 - v + min_x (Bounds img)) (u + min_y (Bounds img))
            else zero_rgba)\<rparr>"
proof -
  have d: "0 \<le> Dy (Bounds img)" "0 \<le> Dx (Bounds img)"
    using assms by (simp_all add: wf_rect_dims)
  show ?thesis
    unfolding rotate90CCW_def Let_def Rect_origin [OF d]
    by (subst pixel_loop [where sx = "\<lambda>u v. Dx (Bounds img) - 1 - v" and sy = "\<lambda>u v. u"])
       (auto simp: In_rect_def fun_eq_iff)
qed

lemma grid_flipHorizontal:
  assumes "wf_rect (Bounds img)"
  shows "grid_of (flipHorizontal img) = spec_flip_horizontal (grid_of img)"
  unfolding flipHorizontal_eq [OF assms]
  by (auto simp: grid_of_def spec_flip_horizontal_def At_def In_rect_def Dx_def Dy_def fun_eq_iff)

lemma grid_flipVertical:
  assumes "wf_rect (Bounds img)"
  shows "grid_of (flipVertical img) = spec_flip_vertical (grid_of img)"
  unfolding flipVertical_eq [OF assms]
  by (auto simp: grid_of_def spec_flip_vertical_def At_def In_rect_def Dx_def Dy_def fun_eq_iff)

lemma grid_rotate180:
  assumes "wf_rect (Bounds img)"
  shows "grid_of (rotate180 img) = spec_rotate_180 (grid_of img)"
  unfolding rotate180_eq [OF assms]
  by (auto simp: grid_of_def spec_rotate_180_def At_def In_rect_def Dx_def Dy_def fun_eq_iff)

lemma grid_rotate90CW:
  assumes "wf_rect (Bounds img)"
  shows "grid_of (rotate90CW img (Dy (Bounds img)) (Dx (Bounds img))) = spec_rotate_90_cw (grid_of img)"
  unfolding rotate90CW_eq [OF assms]
  by (auto simp: grid_of_def spec_rotate_90_cw_def At_def In_rect_def Dx_def Dy_def fun_eq_iff)

lemma grid_rotate90CCW:
  assumes "wf_rect (Bounds img)"
  shows "grid_of (rotate90CCW img (Dy (Bounds img)) (Dx (Bounds img))) = spec_rotate_90_ccw (grid_of img)"
  unfolding rotate90CCW_eq [OF assms]
  by (auto simp: grid_of_def spec_rotate_90_ccw_def At_def In_rect_def Dx_def Dy_def fun_eq_iff)

lemma Bounds_flipHorizontal:
  "wf_rect (Bounds img) \<Longrightarrow>
   Bounds (flipHorizontal img) =
     \<lparr>min_x = 0, min_y = 0, max_x = Dx (Bounds img), max_y = Dy (Bounds img)\<rparr>"
  by (simp add: flipHorizontal_eq)

lemma flipHorizontal_dims:
  assumes "wf_rect (Bounds img)"
  shows "wf_rect (Bounds (flipHorizontal img))"
    and "Dx (Bounds (flipHorizontal img)) = Dx (Bounds img)"
    and "Dy (Bounds (flipHorizontal img)) = Dy (Bounds img)"
  using wf_rect_dims [OF assms]
  by (simp_all add: Bounds_flipHorizontal [OF assms] wf_rect_def Dx_def Dy_def)

lemma rotate90CW_dims:
  assumes "wf_rect (Bounds img)"
  shows "wf_rect (Bounds (rotate90CW img (Dy (Bounds img)) (Dx (Bounds img))))"
    and "Dx (Bounds (rotate90CW img (Dy (Bounds img)) (Dx (Bounds img)))) = Dy (Bounds img)"
    and "Dy (Bounds (rotate90CW img (Dy (Bounds img)) (Dx (Bounds img)))) = Dx (Bounds img)"
  unfolding rotate90CW_eq [OF assms] using wf_rect_dims [OF assms]
  by (simp_all add: wf_rect_def Dx_def Dy_def)

lemma rotate90CCW_dims:
  assumes "wf_rect (Bounds img)"
  shows "wf_rect (Bounds (rotate90CCW img (Dy (Bounds img)) (Dx (Bounds img))))"
    and "Dx (Bounds (rotate90CCW img (Dy (Bounds img)) (Dx (Bounds img)))) = Dy (Bounds img)"
    and "Dy (Bounds (rotate90CCW img (Dy (Bounds img)) (Dx (Bounds img)))) = Dx (Bounds img)"
  unfolding rotate90CCW_eq [OF assms] using wf_rect_dims [OF assms]
  by (simp_all add: wf_rect_def Dx_def Dy_def)

lemma flipVertical_dims:
  assumes "wf_rect (Bounds img)"
  shows "wf_rect (Bounds (flipVertical img))"
  unfolding flipVertical_eq [OF assms] using wf_rect_dims [OF assms]
  by (simp_all add: wf_rect_def Dx_def Dy_def)

lemma rotate180_dims:
  assumes "wf_rect (Bounds img)"
  shows "wf_rect (Bounds (rotate180 img))"
  unfolding rotate180_eq [OF assms] using wf_rect_dims [OF assms]
  by (simp_all add: wf_rect_def Dx_def Dy_def)

lemma orientation_tag_Some:
  assumes "orientation_tag exifDecode getOrientation tagInt r = Some t"
  shows "\<exists>x orientTag. exifDecode r = Some x \<and> getOrientation x = Some orientTag
           \<and> tagInt orientTag = Some t"
  using assms unfolding orientation_tag_def
  by (cases "exifDecode r"; simp) (cases "getOrientation (the (exifDecode r))"; simp)

lemma applyExifOrientation_tag:
  assumes "orientation_tag exifDecode getOrientation tagInt r = Some t"
  shows "applyExifOrientation exifDecode getOrientation tagInt r img =
     (if t = 1 then img
      else if t = 2 then flipHorizontal img
      else if t = 3 then rotate180 img
      else if t = 4 then flipVertical img
      else if t = 5 then rotate90CCW (flipHorizontal img) (Dy (Bounds img)) (Dx (Bounds img))
      else if t = 6 then rotate90CW img (Dy (Bounds img)) (Dx (Bounds img))
      else if t = 7 then rotate90CW (flipHorizontal img) (Dy (Bounds img)) (Dx (Bounds img))
      else if t = 8 then rotate90CCW img (Dy (Bounds img)) (Dx (Bounds img))
      else img)"
proof -
  from orientation_tag_Some [OF assms] obtain x orientTag where
    "exifDecode r = Some x" "getOrientation x = Some orientTag" "tagInt orientTag = Some t"
    by blast
  then show ?thesis by (simp add: applyExifOrientation_def Let_def)
qed

lemma applyExifOrientation_no_tag:
  assumes "orientation_tag exifDecode getOrientation tagInt r = None"
  shows "applyExifOrientation exifDecode getOrientation tagInt r img = img"
proof (cases "exifDecode r")
  case None
  then show ?thesis by (simp add: applyExifOrientation_def)
next
  case x: (Some x)
  show ?thesis
  proof (cases "getOrientation x")
    case None
    then show ?thesis by (simp add: applyExifOrientation_def x)
  next
    case (Some orientTag)
    with assms x have "tagInt orientTag = None" by (simp add: orientation_tag_def)
    then show ?thesis by (simp add: applyExifOrientation_def x Some)
  qed
qed

lemma grid_correction:
  assumes wf: "wf_rect (Bounds img)"
    and tag: "orientation_tag exifDecode getOrientation tagInt r = Some t"
  shows "grid_of (applyExifOrientation exifDecode getOrientation tagInt r img)
           = spec_correction t (grid_of img)"
proof -
  note fl = flipHorizontal_dims [OF wf]
  have t5: "grid_of (rotate90CCW (flipHorizontal img) (Dy (Bounds img)) (Dx (Bounds img)))
      = spec_rotate_90_ccw (spec_flip_horizontal (grid_of img))"
    using grid_rotate90CCW [OF fl(1)] by (simp add: fl grid_flipHorizontal [OF wf])
  have t7: "grid_of (rotate90CW (flipHorizontal img) (Dy (Bounds img)) (Dx (Bounds img)))
      = spec_rotate_90_cw (spec_flip_horizontal (grid_of img))"
    using grid_rotate90CW [OF fl(1)] by (simp add: fl grid_flipHorizontal [OF wf])
  show ?thesis
    unfolding applyExifOrientation_tag [OF tag] spec_correction_def
    by (simp add: t5 t7 grid_flipHorizontal [OF wf] grid_flipVertical [OF wf]
        grid_rotate180 [OF wf] grid_rotate90CW [OF wf] grid_rotate90CCW [OF wf])
qed

lemma swapped_dims:
  assumes wf: "wf_rect (Bounds img)"
    and tag: "orientation_tag exifDecode getOrientation tagInt r = Some t"
    and t: "5 \<le> t" "t \<le> 8"
  shows "Dx (Bounds (applyExifOrientation exifDecode getOrientation tagInt r img)) = Dy (Bounds img)
       \<and> Dy (Bounds (applyExifOrientation exifDecode getOrientation tagInt r img)) = Dx (Bounds img)"
proof -
  note fl = flipHorizontal_dims [OF wf]
  from t have "t = 5 \<or> t = 6 \<or> t = 7 \<or> t = 8" by arith
  then show ?thesis
    unfolding applyExifOrientation_tag [OF tag]
    using rotate90CW_dims [OF wf] rotate90CCW_dims [OF wf]
      rotate90CW_dims [OF fl(1)] rotate90CCW_dims [OF fl(1)]
    by (auto simp: fl)
qed

text \<open>
  Claim C1. When the EXIF data or the orientation tag is absent, or the tag is not one of
  1 to 8, the orientation corrector returns the image it was given. For a tag from 1 to
  8 the result is the transform of the table applied to the grid (1 identity, 2 flip
  horizontal, 3 rotate 180, 4 flip vertical, 5 flip horizontal then a quarter turn
  counter-clockwise, 6 a quarter turn clockwise, 7 flip horizontal then a quarter turn
  clockwise, 8 a quarter turn counter-clockwise), and for the tags 5 to 8 the width and
  height of the result are the height and width of the source.
\<close>

theorem applyExifOrientation_table:
  assumes "wf_rect (Bounds img)"
  shows "case orientation_tag exifDecode getOrientation tagInt r of
           None \<Rightarrow> applyExifOrientation exifDecode getOrientation tagInt r img = img
         | Some t \<Rightarrow>
            (if 1 \<le> t \<and> t \<le> 8 then
               grid_of (applyExifOrientation exifDecode getOrientation tagInt r img)
                 = spec_correction t (grid_of img)
               \<and> (t = 1 \<longrightarrow> applyExifOrientation exifDecode getOrientation tagInt r img = img)
               \<and> (5 \<le> t \<longrightarrow>
                    Dx (Bounds (applyExifOrientation exifDecode getOrientation tagInt r img))
                      = Dy (Bounds img)
                  \<and> Dy (Bounds (applyExifOrientation exifDecode getOrientation tagInt r img))
                      = Dx (Bounds img))
             else applyExifOrientation exifDecode getOrientation tagInt r img = img)"
proof (cases "orientation_tag exifDecode getOrientation tagInt r")
  case None
  then show ?thesis by (simp add: applyExifOrientation_no_tag)
next
  case (Some t)
  show ?thesis
  proof (cases "1 \<le> t \<and> t \<le> 8")
    case True
    then show ?thesis
      using grid_correction [OF assms Some] swapped_dims [OF assms Some]
      by (simp add: Some applyExifOrientation_tag [OF Some])
  next
    case False
    then show ?thesis by (auto simp: Some applyExifOrientation_tag [OF Some])
  qed
qed

theorem applyExifOrientation_table_witness:
  "wf_rect (Bounds test_image)
   \<and> applyExifOrientation (\<lambda>r. None) Some (\<lambda>w. Some (uint w)) (6 :: 8 word) test_image
       = test_image
   \<and> applyExifOrientation Some Some (\<lambda>w. Some (uint w)) (9 :: 8 word) test_image = test_image
   \<and> grid_of (applyExifOrientation Some Some (\<lambda>w. Some (uint w)) (6 :: 8 word) test_image)
       = spec_correction 6 (grid_of test_image)
   \<and> Dx (Bounds (applyExifOrientation Some Some (\<lambda>w. Some (uint w)) (6 :: 8 word) test_image))
       = Dy (Bounds test_image)
   \<and> Dy (Bounds (applyExifOrientation Some Some (\<lambda>w. Some (uint w)) (6 :: 8 word) test_image))
       = Dx (Bounds test_image)"
proof -
  have wf: "wf_rect (Bounds test_image)"
    by (simp add: test_image_def wf_rect_def Rect_def)
  show ?thesis
    using wf
      applyExifOrientation_table [OF wf, of "\<lambda>r. None" Some "\<lambda>w. Some (uint w)" "6 :: 8 word"]
      applyExifOrientation_table [OF wf, of Some Some "\<lambda>w. Some (uint w)" "9 :: 8 word"]
      applyExifOrientation_table [OF wf, of Some Some "\<lambda>w. Some (uint w)" "6 :: 8 word"]
    by (simp add: orientation_tag_def)
qed

lemma spec_involutions:
  "spec_flip_horizontal (spec_flip_horizontal g) = g"
  "spec_flip_vertical (spec_flip_vertical g) = g"
  "spec_rotate_180 (spec_rotate_180 g) = g"
  "spec_rotate_90_ccw (spec_rotate_90_cw g) = g"
  "spec_rotate_90_cw (spec_rotate_90_ccw g) = g"
  by (simp_all add: spec_flip_horizontal_def spec_flip_vertical_def spec_rotate_180_def
      spec_rotate_90_ccw_def spec_rotate_90_cw_def)

text \<open>
  Claim C2. For each of the eight tags, the correction of the tag followed by its inverse
  gives back the original grid: the same width and height (also for the tags 5 to 8,
  whose correction swaps them) and the same pixel at every position.
\<close>

theorem orientation_round_trip:
  assumes wf: "wf_rect (Bounds img)"
    and tag: "orientation_tag exifDecode getOrientation tagInt r = Some t"
    and t: "1 \<le> t" "t \<le> 8"
  shows "grid_of (inverse_correction t (applyExifOrientation exifDecode getOrientation tagInt r img))
           = grid_of img"
proof -
  let ?c = "applyExifOrientation exifDecode getOrientation tagInt r img"
  note fl = flipHorizontal_dims [OF wf]
  have g: "grid_of ?c = spec_correction t (grid_of img)"
    by (rule grid_correction [OF wf tag])
  have wfc: "wf_rect (Bounds ?c)"
    unfolding applyExifOrientation_tag [OF tag]
    using wf fl(1) flipVertical_dims [OF wf] rotate180_dims [OF wf]
      rotate90CW_dims(1) [OF wf] rotate90CCW_dims(1) [OF wf]
      rotate90CW_dims(1) [OF fl(1)] rotate90CCW_dims(1) [OF fl(1)]
    by (auto simp: fl)
  from t have cases: "t = 1 \<or> t = 2 \<or> t = 3 \<or> t = 4 \<or> t = 5 \<or> t = 6 \<or> t = 7 \<or> t = 8"
    by arith
  have cw: "grid_of (rotate90CW ?c (Dy (Bounds ?c)) (Dx (Bounds ?c)))
      = spec_rotate_90_cw (grid_of ?c)"
    by (rule grid_rotate90CW [OF wfc])
  have ccw: "grid_of (rotate90CCW ?c (Dy (Bounds ?c)) (Dx (Bounds ?c)))
      = spec_rotate_90_ccw (grid_of ?c)"
    by (rule grid_rotate90CCW [OF wfc])
  have fcw: "grid_of (flipHorizontal (rotate90CW ?c (Dy (Bounds ?c)) (Dx (Bounds ?c))))
      = spec_flip_horizontal (spec_rotate_90_cw (grid_of ?c))"
    using grid_flipHorizontal [OF rotate90CW_dims(1) [OF wfc]] by (simp add: cw)
  have fccw: "grid_of (flipHorizontal (rotate90CCW ?c (Dy (Bounds ?c)) (Dx (Bounds ?c))))
      = spec_flip_horizontal (spec_rotate_90_ccw (grid_of ?c))"
    using grid_flipHorizontal [OF rotate90CCW_dims(1) [OF wfc]] by (simp add: ccw)
  from cases show ?thesis
    unfolding inverse_correction_def Let_def
    by (elim disjE)
       (simp_all add: fcw fccw cw ccw grid_flipHorizontal [OF wfc] grid_flipVertical [OF wfc]
          grid_rotate180 [OF wfc] g spec_correction_def spec_involutions)
qed

theorem orientation_round_trip_witness:
  "wf_rect (Bounds test_image)
   \<and> orientation_tag Some Some (\<lambda>w. Some (uint w)) (5 :: 8 word) = Some 5
   \<and> grid_of (inverse_correction 5
        (applyExifOrientation Some Some (\<lambda>w. Some (uint w)) (5 :: 8 word) test_image))
       = grid_of test_image"
proof -
  have wf: "wf_rect (Bounds test_image)"
    by (simp add: test_image_def wf_rect_def Rect_def)
  have tag: "orientation_tag Some Some (\<lambda>w. Some (uint w)) (5 :: 8 word) = Some 5"
    by (simp add: orientation_tag_def)
  show ?thesis
    using wf tag orientation_round_trip [OF wf tag] by simp
qed

section \<open>Properties of the resizers\<close>

lemma sdiv_nonneg: "0 \<le> (a::int) \<Longrightarrow> a sdiv 2 = a div 2"
  by (simp add: signed_divide_int_def sgn_if)

lemma Bounds_Scale [simp]: "Bounds (Scale interp dst dr src sr) = Bounds dst"
  by (simp add: Scale_def)

lemma cropRect_origin:
  assumes "0 \<le> sw" "0 \<le> sh" "Bounds img = Rect 0 0 sw sh"
  shows "cropRect img =
    (if sw > sh then \<lparr>min_x = (sw - sh) div 2, min_y = 0, max_x = (sw - sh) div 2 + sh, max_y = sh\<rparr>
     else \<lparr>min_x = 0, min_y = (sh - sw) div 2, max_x = sw, max_y = (sh - sw) div 2 + sw\<rparr>)"
  using assms
  by (auto simp: cropRect_def Let_def Rect_def Dx_def Dy_def sdiv_nonneg)

text \<open>
  Claim C3. For a source of any width and height and any target size, the result of the
  square-crop resize has exactly the target width and height, and its pixels are the
  interpolation of the crop rectangle onto the whole result. The crop is a square whose
  side is the shorter dimension of the source, it lies inside the source, and it is
  centred: the margins on the two sides of the longer dimension are equal, or the far one
  is one pixel larger when the excess is odd.
\<close>

theorem resizeImage_square_crop:
  assumes "0 \<le> sw" "0 \<le> sh" "Bounds img = Rect 0 0 sw sh" "0 \<le> width" "0 \<le> height"
  shows "Bounds (resizeImage interp img width height)
           = \<lparr>min_x = 0, min_y = 0, max_x = width, max_y = height\<rparr>
       \<and> Dx (Bounds (resizeImage interp img width height)) = width
       \<and> Dy (Bounds (resizeImage interp img width height)) = height
       \<and> Pix (resizeImage interp img width height)
           = interp (NewRGBA (Rect 0 0 width height)) (Rect 0 0 width height) img (cropRect img)
       \<and> Dx (cropRect img) = min sw sh \<and> Dy (cropRect img) = min sw sh
       \<and> 0 \<le> min_x (cropRect img) \<and> max_x (cropRect img) \<le> sw
       \<and> 0 \<le> min_y (cropRect img) \<and> max_y (cropRect img) \<le> sh
       \<and> min_x (cropRect img) = (sw - min sw sh) div 2
       \<and> min_y (cropRect img) = (sh - min sw sh) div 2
       \<and> sw - max_x (cropRect img) - min_x (cropRect img) \<in> {0, 1}
       \<and> sh - max_y (cropRect img) - min_y (cropRect img) \<in> {0, 1}"
proof -
  have b: "Bounds (resizeImage interp img width height)
      = \<lparr>min_x = 0, min_y = 0, max_x = width, max_y = height\<rparr>"
    using assms(4,5) by (simp add: resizeImage_def Let_def NewRGBA_def Rect_def)
  have p: "Pix (resizeImage interp img width height)
      = interp (NewRGBA (Rect 0 0 width height)) (Rect 0 0 width height) img (cropRect img)"
    by (simp add: resizeImage_def Let_def Scale_def NewRGBA_def)
  note c = cropRect_origin [OF assms(1-3)]
  show ?thesis
  proof (cases "sw > sh")
    case True
    then show ?thesis using assms(1,2) b p by (simp add: c Dx_def Dy_def min_def) presburger
  next
    case False
    then show ?thesis using assms(1,2) b p by (simp add: c Dx_def Dy_def min_def) presburger
  qed
qed

theorem resizeImage_square_crop_witness:
  "Bounds (NewRGBA (Rect 0 0 300 500)) = Rect 0 0 300 500
   \<and> Dx (Bounds (resizeImage (\<lambda>dst dr src sr p. zero_rgba) (NewRGBA (Rect 0 0 300 500)) 256 256)) = 256
   \<and> Dy (Bounds (resizeImage (\<lambda>dst dr src sr p. zero_rgba) (NewRGBA (Rect 0 0 300 500)) 256 256)) = 256
   \<and> cropRect (NewRGBA (Rect 0 0 300 500))
       = \<lparr>min_x = 0, min_y = 100, max_x = 300, max_y = 400\<rparr>"
proof -
  have b: "Bounds (NewRGBA (Rect 0 0 300 500)) = Rect 0 0 300 500"
    by (simp add: NewRGBA_def)
  have c: "cropRect (NewRGBA (Rect 0 0 300 500))
      = \<lparr>min_x = 0, min_y = 100, max_x = 300, max_y = 400\<rparr>"
    by (simp add: cropRect_def NewRGBA_def Rect_def Dx_def Dy_def Let_def signed_divide_int_def)
  show ?thesis
    using b c resizeImage_square_crop [of 300 500 "NewRGBA (Rect 0 0 300 500)" 256 256
        "\<lambda>dst dr src sr p. zero_rgba"]
    by (simp add: Dx_def Dy_def)
qed

lemma float64_to_int_quotient:
  assumes "0 \<le> a" "0 \<le> b" "0 < c"
  shows "float64_to_int (real_of_int a * real_of_int b / real_of_int c) = (a * b) div c"
proof -
  have "0 \<le> real_of_int a * real_of_int b / real_of_int c" using assms by simp
  moreover have "\<lfloor>real_of_int (a * b) / real_of_int c\<rfloor> = (a * b) div c"
    by (rule floor_divide_of_int_eq)
  ultimately show ?thesis by (simp add: float64_to_int_def)
qed

text \<open>
  Claim C4, as amended. A source no wider than the maximum width is returned as it is.
  A wider one is scaled to the maximum width, and the height is the quotient
  \<open>sourceHeight * maxWidth / sourceWidth\<close> truncated to an integer (rounded down), not
  rounded to the nearest.
\<close>

theorem resizeCover_proportional:
  assumes "wf_rect (Bounds img)" "0 \<le> maxWidth"
  shows "(Dx (Bounds img) \<le> maxWidth \<longrightarrow> resizeCover interp img maxWidth = img)
       \<and> (maxWidth < Dx (Bounds img) \<longrightarrow>
            Dx (Bounds (resizeCover interp img maxWidth)) = maxWidth
          \<and> Dy (Bounds (resizeCover interp img maxWidth))
              = (Dy (Bounds img) * maxWidth) div Dx (Bounds img)
          \<and> Dy (Bounds (resizeCover interp img maxWidth))
              = \<lfloor>real_of_int (Dy (Bounds img)) * real_of_int maxWidth
                   / real_of_int (Dx (Bounds img))\<rfloor>)"
proof (intro conjI impI)
  assume "Dx (Bounds img) \<le> maxWidth"
  then show "resizeCover interp img maxWidth = img" by (simp add: resizeCover_def Let_def)
next
  assume w: "maxWidth < Dx (Bounds img)"
  have h: "0 \<le> Dy (Bounds img)" using assms(1) by (simp add: wf_rect_dims)
  have pos: "0 < Dx (Bounds img)" using w assms(2) by simp
  have q: "float64_to_int (real_of_int (Dy (Bounds img)) * real_of_int maxWidth
        / real_of_int (Dx (Bounds img))) = (Dy (Bounds img) * maxWidth) div Dx (Bounds img)"
    by (rule float64_to_int_quotient [OF h assms(2) pos])
  have nn: "0 \<le> (Dy (Bounds img) * maxWidth) div Dx (Bounds img)"
    using h assms(2) pos by (simp add: pos_imp_zdiv_nonneg_iff)
  have b: "Bounds (resizeCover interp img maxWidth)
      = \<lparr>min_x = 0, min_y = 0, max_x = maxWidth,
         max_y = (Dy (Bounds img) * maxWidth) div Dx (Bounds img)\<rparr>"
    using w nn assms(2) unfolding resizeCover_def Let_def q
    by (simp add: NewRGBA_def Rect_def)
  show "Dx (Bounds (resizeCover interp img maxWidth)) = maxWidth"
    by (simp add: b Dx_def)
  show d: "Dy (Bounds (resizeCover interp img maxWidth))
      = (Dy (Bounds img) * maxWidth) div Dx (Bounds img)"
    by (simp add: b Dy_def)
  show "Dy (Bounds (resizeCover interp img maxWidth))
      = \<lfloor>real_of_int (Dy (Bounds img)) * real_of_int maxWidth / real_of_int (Dx (Bounds img))\<rfloor>"
    unfolding d
    using floor_divide_of_int_eq [where ?'a = real, of "Dy (Bounds img) * maxWidth" "Dx (Bounds img)"]
    by simp
qed

theorem resizeCover_proportional_witness:
  "wf_rect (Bounds (NewRGBA (Rect 0 0 1000 2)))
   \<and> resizeCover (\<lambda>dst dr src sr p. zero_rgba) (NewRGBA (Rect 0 0 300 500)) 800
       = NewRGBA (Rect 0 0 300 500)
   \<and> Dx (Bounds (resizeCover (\<lambda>dst dr src sr p. zero_rgba) (NewRGBA (Rect 0 0 1000 2)) 800)) = 800
   \<and> Dy (Bounds (resizeCover (\<lambda>dst dr src sr p. zero_rgba) (NewRGBA (Rect 0 0 1000 2)) 800)) = 1"
proof -
  have wf: "wf_rect (Bounds (NewRGBA (Rect 0 0 1000 2)))"
    "wf_rect (Bounds (NewRGBA (Rect 0 0 300 500)))"
    by (simp_all add: NewRGBA_def wf_rect_def Rect_def)
  have d: "Dx (Bounds (NewRGBA (Rect 0 0 1000 2))) = 1000"
    "Dy (Bounds (NewRGBA (Rect 0 0 1000 2))) = 2"
    "Dx (Bounds (NewRGBA (Rect 0 0 300 500))) = 300"
    by (simp_all add: NewRGBA_def Rect_def Dx_def Dy_def)
  show ?thesis
    using wf(1)
      resizeCover_proportional [OF wf(1), of 800 "\<lambda>dst dr src sr p. zero_rgba"]
      resizeCover_proportional [OF wf(2), of 800 "\<lambda>dst dr src sr p. zero_rgba"]
    by (simp add: d)
qed

text \<open>
  Claim C4 as stated fails: a source of 1000 by 2 pixels scaled to the width 800 gets the
  height 1, while \<open>round (2 * 800 / 1000) = 2\<close>.
\<close>

theorem resizeCover_round_counterexample:
  "800 < Dx (Bounds (NewRGBA (Rect 0 0 1000 2)))
   \<and> Dy (Bounds (resizeCover (\<lambda>dst dr src sr p. zero_rgba) (NewRGBA (Rect 0 0 1000 2)) 800))
      \<noteq> round (real_of_int (Dy (Bounds (NewRGBA (Rect 0 0 1000 2)))) * real_of_int 800
           / real_of_int (Dx (Bounds (NewRGBA (Rect 0 0 1000 2)))))"
  by (simp add: resizeCover_def Let_def NewRGBA_def Rect_def Dx_def Dy_def Scale_def
      float64_to_int_def round_def)

section \<open>Properties of the engagement handlers\<close>

lemma find_SomeD: "find P xs = Some x \<Longrightarrow> x \<in> set xs \<and> P x"
  by (induction xs) (auto split: if_splits)

lemma find_distinct_key:
  "distinct (map k xs) \<Longrightarrow> x \<in> set xs \<Longrightarrow> find (\<lambda>y. k y = k x) xs = Some x"
  by (induction xs) (auto simp: image_iff)

lemma map_update_one:
  "(\<And>x. k (f x) = k x) \<Longrightarrow> map k (update_one P f xs) = map k xs"
  by (induction xs) auto

lemma update_one_twice:
  "(\<And>x. P x \<Longrightarrow> P (g x)) \<Longrightarrow> update_one P f (update_one P g xs) = update_one P (f \<circ> g) xs"
  by (induction xs) auto

lemma find_key_update_one:
  "distinct (map k xs) \<Longrightarrow> x \<in> set xs \<Longrightarrow> (\<And>y. k (f y) = k y) \<Longrightarrow>
   find (\<lambda>y. k y = k x) (update_one (\<lambda>y. k y = k x) f xs) = Some (f x)"
  by (induction xs) (auto simp: image_iff)

lemma find_other_update_one:
  "distinct (map k xs) \<Longrightarrow> find Q xs = Some x \<Longrightarrow> (\<And>y. Q (f y) = Q y) \<Longrightarrow>
   find Q (update_one (\<lambda>y. k y = k x) f xs) = Some (f x)"
proof (induction xs)
  case Nil
  then show ?case by simp
next
  case (Cons a xs)
  show ?case
  proof (cases "Q a")
    case True
    with Cons.prems show ?thesis by simp
  next
    case False
    with Cons.prems have f: "find Q xs = Some x" by simp
    then have "x \<in> set xs" by (simp add: find_SomeD)
    with Cons.prems(1) have "k a \<noteq> k x" by (auto simp: image_iff)
    with False f Cons show ?thesis by simp
  qed
qed

lemma RecordView_ok:
  assumes "req_slug r \<noteq> []"
    and "resolvePostBySlug e s (req_slug r) = Some post"
    and "store_ok e PostsIncViewCount"
  shows "RecordView e r s =
    (Message ''View recorded'',
     (let created = (req_user r \<noteq> NilObjectID \<and> store_ok e PostViewsUpsert
                      \<and> \<not> has_view s (post_id post) (req_user r));
          counted = (created \<and> store_ok e PostsIncUniqueViewCount)
      in s\<lparr>posts := update_one (\<lambda>p. post_id p = post_id post)
                 (\<lambda>p. p\<lparr>view_count := view_count p + 1,
                        unique_view_count := unique_view_count p + (if counted then 1 else 0)\<rparr>)
                 (posts s),
            post_views := post_views s @
                 (if created then [\<lparr>pv_id = new_object_id e, pv_post_id = post_id post,
                     pv_user_id = req_user r, pv_viewed_at = time_now e\<rparr>] else []),
            events := events s @ [Metric ''IncPostView'', Log ''post_view_recorded'']\<rparr>))"
  using assms
  by (auto simp: RecordView_def Let_def Posts_UpdateOne_def PostViews_Upsert_def emit_def
      ignoring_error_def has_view_def list_ex_iff find_None_iff update_one_twice comp_def
      split: option.splits dest: find_SomeD)

lemma resolve_find:
  "resolvePostBySlug e s sl = Some post \<Longrightarrow>
   store_ok e PostsFindOne \<and> find (published_as sl) (posts s) = Some post"
  by (auto simp: resolvePostBySlug_def published_as_def [abs_def] split: if_splits)

lemma resolve_ok:
  "store_ok e PostsFindOne \<Longrightarrow>
   resolvePostBySlug e s sl = find (published_as sl) (posts s)"
  by (simp add: resolvePostBySlug_def published_as_def [abs_def])

lemma RecordView_unchanged:
  "req_slug r = [] \<or> \<not> store_ok e PostsFindOne \<or> \<not> store_ok e PostsIncViewCount
     \<or> find (published_as (req_slug r)) (posts s) = None \<Longrightarrow>
   snd (RecordView e r s) = s"
  by (auto simp: RecordView_def Let_def resolvePostBySlug_def published_as_def [abs_def]
      Posts_UpdateOne_def split: option.splits)

lemma has_view_append [simp]:
  "has_view (s\<lparr>post_views := post_views s @ vs\<rparr>) pid uid
     \<longleftrightarrow> has_view s pid uid \<or> list_ex (\<lambda>v. pv_post_id v = pid \<and> pv_user_id v = uid) vs"
  by (simp add: has_view_def list_ex_iff) blast

lemma RecordView_step:
  assumes d: "distinct (map post_id (posts s))"
    and f: "find (published_as (req_slug r)) (posts s) = Some post"
  shows "\<exists>post'. find (published_as (req_slug r)) (posts (snd (RecordView e r s))) = Some post'
           \<and> post_id post' = post_id post
           \<and> distinct (map post_id (posts (snd (RecordView e r s))))
           \<and> (has_view s (post_id post) (req_user r)
                \<longrightarrow> has_view (snd (RecordView e r s)) (post_id post) (req_user r)
                  \<and> unique_view_count post' = unique_view_count post)
           \<and> (unique_view_count post' = unique_view_count post
                \<or> unique_view_count post' = unique_view_count post + 1
                  \<and> \<not> has_view s (post_id post) (req_user r)
                  \<and> has_view (snd (RecordView e r s)) (post_id post) (req_user r))"
proof (cases "req_slug r = [] \<or> \<not> store_ok e PostsFindOne \<or> \<not> store_ok e PostsIncViewCount")
  case True
  then have "snd (RecordView e r s) = s" by (intro RecordView_unchanged) blast
  then show ?thesis using d f by simp
next
  case False
  then have ok: "req_slug r \<noteq> []" "store_ok e PostsFindOne" "store_ok e PostsIncViewCount"
    by simp_all
  have res: "resolvePostBySlug e s (req_slug r) = Some post"
    using f ok(2) by (simp add: resolve_ok)
  let ?g = "\<lambda>k p. p\<lparr>view_count := view_count p + 1,
                     unique_view_count := unique_view_count p + k\<rparr>"
  have pres: "published_as sl (?g k p) = published_as sl p" for sl k p
    by (simp add: published_as_def)
  have fnd: "find (published_as (req_slug r))
        (update_one (\<lambda>p. post_id p = post_id post) (?g k) (posts s)) = Some (?g k post)" for k
    by (rule find_other_update_one [OF d f]) (rule pres)
  have dst: "distinct (map post_id (update_one (\<lambda>p. post_id p = post_id post) (?g k) (posts s)))"
    for k using d by (simp add: map_update_one)
  show ?thesis
    unfolding RecordView_ok [OF ok(1) res ok(3)] Let_def
    by (simp add: fnd dst has_view_def)
qed

lemma run_RecordView_unique:
  assumes "distinct (map post_id (posts s))"
    and "find (published_as (req_slug r)) (posts s) = Some post"
  shows "\<exists>post'. find (published_as (req_slug r)) (posts (snd (run RecordView es r s))) = Some post'
           \<and> post_id post' = post_id post
           \<and> distinct (map post_id (posts (snd (run RecordView es r s))))
           \<and> unique_view_count post \<le> unique_view_count post'
           \<and> unique_view_count post'
               \<le> unique_view_count post + (if has_view s (post_id post) (req_user r) then 0 else 1)"
  using assms
proof (induction es arbitrary: s post)
  case Nil
  then show ?case by simp
next
  case (Cons e es)
  from RecordView_step [OF Cons.prems, of e] obtain p1 where
    p1: "find (published_as (req_slug r)) (posts (snd (RecordView e r s))) = Some p1"
      "post_id p1 = post_id post"
      "distinct (map post_id (posts (snd (RecordView e r s))))"
      "has_view s (post_id post) (req_user r)
         \<longrightarrow> has_view (snd (RecordView e r s)) (post_id post) (req_user r)
           \<and> unique_view_count p1 = unique_view_count post"
      "unique_view_count p1 = unique_view_count post
         \<or> unique_view_count p1 = unique_view_count post + 1
           \<and> \<not> has_view s (post_id post) (req_user r)
           \<and> has_view (snd (RecordView e r s)) (post_id post) (req_user r)"
    by blast
  from Cons.IH [OF p1(3) p1(1)] obtain p2 where
    p2: "find (published_as (req_slug r))
           (posts (snd (run RecordView es r (snd (RecordView e r s))))) = Some p2"
      "post_id p2 = post_id p1"
      "distinct (map post_id (posts (snd (run RecordView es r (snd (RecordView e r s))))))"
      "unique_view_count p1 \<le> unique_view_count p2"
      "unique_view_count p2 \<le> unique_view_count p1
          + (if has_view (snd (RecordView e r s)) (post_id p1) (req_user r) then 0 else 1)"
    by blast
  have run: "snd (run RecordView (e # es) r s) = snd (run RecordView es r (snd (RecordView e r s)))"
    by (simp split: prod.splits)
  show ?case
    unfolding run using p1 p2 by (intro exI [of _ p2]) (auto split: if_splits)
qed


lemma post_by_id_found:
  "distinct (map post_id (posts s)) \<Longrightarrow> find Q (posts s) = Some p \<Longrightarrow>
   post_by_id s (post_id p) = Some p"
  unfolding post_by_id_def by (rule find_distinct_key) (simp_all add: find_SomeD)

text \<open>
  Claim C5. A view request on a published post whose counter updates succeed answers
  \<open>View recorded\<close> and adds exactly one to \<open>view_count\<close>. It adds one to
  \<open>unique_view_count\<close> exactly when it created the view marker of the post and the user
  (no marker before the request, one after it), which only an authenticated caller does;
  when the marker was already there, the markers stay as they are and only \<open>view_count\<close>
  changes. Over any sequence of view requests of one user on one post, whatever calls to
  the store fail, \<open>unique_view_count\<close> grows by at most one, and not at all when the
  marker was there at the start.
\<close>

theorem RecordView_counters:
  assumes wf: "wf_store s"
    and slug: "req_slug r \<noteq> []"
    and res: "resolvePostBySlug e s (req_slug r) = Some post"
    and ok: "store_ok e PostsIncViewCount" "store_ok e PostsIncUniqueViewCount"
  shows "(\<exists>s'. RecordView e r s = (Message ''View recorded'', s')
          \<and> (let created = (\<not> has_view s (post_id post) (req_user r)
                              \<and> has_view s' (post_id post) (req_user r))
              in post_by_id s' (post_id post)
                   = Some (post\<lparr>view_count := view_count post + 1,
                                unique_view_count :=
                                  unique_view_count post + (if created then 1 else 0)\<rparr>)
               \<and> (created \<longrightarrow> req_user r \<noteq> NilObjectID)
               \<and> (has_view s (post_id post) (req_user r) \<longrightarrow> post_views s' = post_views s)))
          \<and> (\<forall>es. \<exists>post'. post_by_id (snd (run RecordView es r s)) (post_id post) = Some post'
                 \<and> unique_view_count post \<le> unique_view_count post'
                 \<and> unique_view_count post' \<le> unique_view_count post
                      + (if has_view s (post_id post) (req_user r) then 0 else 1))"
proof -
  from wf have d: "distinct (map post_id (posts s))" by (simp add: wf_store_def)
  from resolve_find [OF res] have f: "find (published_as (req_slug r)) (posts s) = Some post"
    by simp
  let ?g = "\<lambda>k p. p\<lparr>view_count := view_count p + 1,
                     unique_view_count := unique_view_count p + k\<rparr>"
  have mem: "post \<in> set (posts s)" using f by (simp add: find_SomeD)
  have byid: "find (\<lambda>p. post_id p = post_id post)
        (update_one (\<lambda>p. post_id p = post_id post) (?g k) (posts s)) = Some (?g k post)" for k
    by (rule find_key_update_one [OF d mem]) simp
  have one: "\<exists>s'. RecordView e r s = (Message ''View recorded'', s')
          \<and> (let created = (\<not> has_view s (post_id post) (req_user r)
                              \<and> has_view s' (post_id post) (req_user r))
              in post_by_id s' (post_id post)
                   = Some (post\<lparr>view_count := view_count post + 1,
                                unique_view_count :=
                                  unique_view_count post + (if created then 1 else 0)\<rparr>)
               \<and> (created \<longrightarrow> req_user r \<noteq> NilObjectID)
               \<and> (has_view s (post_id post) (req_user r) \<longrightarrow> post_views s' = post_views s))"
    unfolding RecordView_ok [OF slug res ok(1)] Let_def
    by (simp add: ok(2) post_by_id_def byid) (auto simp: has_view_def)
  have many: "\<exists>post'. post_by_id (snd (run RecordView es r s)) (post_id post) = Some post'
                 \<and> unique_view_count post \<le> unique_view_count post'
                 \<and> unique_view_count post' \<le> unique_view_count post
                      + (if has_view s (post_id post) (req_user r) then 0 else 1)" for es
  proof -
    from run_RecordView_unique [OF d f, of es] obtain p where
      p: "find (published_as (req_slug r)) (posts (snd (run RecordView es r s))) = Some p"
        "post_id p = post_id post"
        "distinct (map post_id (posts (snd (run RecordView es r s))))"
        "unique_view_count post \<le> unique_view_count p"
        "unique_view_count p \<le> unique_view_count post
           + (if has_view s (post_id post) (req_user r) then 0 else 1)"
      by blast
    from post_by_id_found [OF p(3) p(1)] p(2,4,5) show ?thesis by auto
  qed
  from one many show ?thesis by blast
qed

lemmas store_eval =
  Let_def resolvePostBySlug_def Posts_UpdateOne_def emit_def ignoring_error_def
  test_store_def test_request_def test_post_def env_ok_def NilObjectID_def post_by_id_def
  wf_store_def

lemmas view_eval =
  RecordView_def PostViews_Upsert_def has_view_def store_eval

theorem RecordView_counters_witness:
  "wf_store test_store \<and> req_slug test_request \<noteq> []
   \<and> resolvePostBySlug env_ok test_store (req_slug test_request) = Some test_post
   \<and> store_ok env_ok PostsIncViewCount \<and> store_ok env_ok PostsIncUniqueViewCount
   \<and> post_by_id (snd (RecordView env_ok test_request test_store)) 1
        = Some (test_post\<lparr>view_count := 11, unique_view_count := 4\<rparr>)
   \<and> (\<exists>post'. post_by_id (snd (run RecordView [env_ok, env_ok, env_ok] test_request test_store))
                  (post_id test_post) = Some post'
          \<and> unique_view_count post' \<le> unique_view_count test_post + 1)"
proof -
  have h: "wf_store test_store" "req_slug test_request \<noteq> []"
    "resolvePostBySlug env_ok test_store (req_slug test_request) = Some test_post"
    "store_ok env_ok PostsIncViewCount" "store_ok env_ok PostsIncUniqueViewCount"
    by (simp_all add: view_eval)
  have v: "post_by_id (snd (RecordView env_ok test_request test_store)) 1
        = Some (test_post\<lparr>view_count := 11, unique_view_count := 4\<rparr>)"
    by (simp add: view_eval)
  have n: "\<not> has_view test_store (post_id test_post) (req_user test_request)"
    by (simp add: view_eval)
  from RecordView_counters [OF h] obtain p where
    p: "post_by_id (snd (run RecordView [env_ok, env_ok, env_ok] test_request test_store))
          (post_id test_post) = Some p"
      "unique_view_count p \<le> unique_view_count test_post
         + (if has_view test_store (post_id test_post) (req_user test_request) then 0 else 1)"
    by blast
  from p(2) n have "unique_view_count p \<le> unique_view_count test_post + 1"
    by (simp only: if_False)
  with h v p(1) show ?thesis by blast
qed

text \<open>
  Claim C10. When the upsert of the view marker fails for an authenticated caller, the
  handler still answers \<open>View recorded\<close>: the increment of \<open>view_count\<close> stays,
  \<open>unique_view_count\<close> and the markers are unchanged.
\<close>

theorem RecordView_marker_failure_swallowed:
  assumes wf: "wf_store s"
    and slug: "req_slug r \<noteq> []"
    and res: "resolvePostBySlug e s (req_slug r) = Some post"
    and ok: "store_ok e PostsIncViewCount"
    and user: "req_user r \<noteq> NilObjectID"
    and fail: "\<not> store_ok e PostViewsUpsert"
  shows "\<exists>s'. RecordView e r s = (Message ''View recorded'', s')
          \<and> post_by_id s' (post_id post) = Some (post\<lparr>view_count := view_count post + 1\<rparr>)
          \<and> post_views s' = post_views s"
proof -
  from wf have d: "distinct (map post_id (posts s))" by (simp add: wf_store_def)
  from resolve_find [OF res] have "find (published_as (req_slug r)) (posts s) = Some post"
    by simp
  then have mem: "post \<in> set (posts s)" by (simp add: find_SomeD)
  have byid: "find (\<lambda>p. post_id p = post_id post)
        (update_one (\<lambda>p. post_id p = post_id post)
           (\<lambda>p. p\<lparr>view_count := view_count p + 1, unique_view_count := unique_view_count p\<rparr>)
           (posts s))
      = Some (post\<lparr>view_count := view_count post + 1,
                   unique_view_count := unique_view_count post\<rparr>)"
    by (rule find_key_update_one [OF d mem]) simp
  show ?thesis
    unfolding RecordView_ok [OF slug res ok] Let_def
    using byid by (simp add: fail post_by_id_def)
qed

theorem RecordView_marker_failure_swallowed_witness:
  "wf_store test_store \<and> req_slug test_request \<noteq> []
   \<and> resolvePostBySlug env_marker_down test_store (req_slug test_request) = Some test_post
   \<and> store_ok env_marker_down PostsIncViewCount \<and> req_user test_request \<noteq> NilObjectID
   \<and> \<not> store_ok env_marker_down PostViewsUpsert
   \<and> (\<exists>s'. RecordView env_marker_down test_request test_store = (Message ''View recorded'', s')
         \<and> post_by_id s' 1 = Some (test_post\<lparr>view_count := 11\<rparr>)
         \<and> post_views s' = [])"
proof -
  have h: "wf_store test_store" "req_slug test_request \<noteq> []"
    "resolvePostBySlug env_marker_down test_store (req_slug test_request) = Some test_post"
    "store_ok env_marker_down PostsIncViewCount" "req_user test_request \<noteq> NilObjectID"
    "\<not> store_ok env_marker_down PostViewsUpsert"
    by (simp_all add: wf_store_def test_store_def test_request_def resolvePostBySlug_def
        env_marker_down_def test_post_def NilObjectID_def)
  have v: "post_id test_post = 1" "view_count test_post = 10" "post_views test_store = []"
    by (simp_all add: test_store_def test_post_def)
  from RecordView_marker_failure_swallowed [OF h] show ?thesis
    using h by (simp add: v)
qed

lemma fst_delete_one: "fst (delete_one P xs) = (if list_ex P xs then 1 else 0)"
  by (induction xs) (auto split: prod.splits)

lemma delete_one_none: "\<not> list_ex P xs \<Longrightarrow> delete_one P xs = (0, xs)"
  by (induction xs) auto

lemma set_delete_one: "set (snd (delete_one P xs)) \<subseteq> set xs"
  by (induction xs) (auto split: prod.splits)

lemma distinct_delete_one:
  "distinct (map k xs) \<Longrightarrow> distinct (map k (snd (delete_one P xs)))"
proof (induction xs)
  case Nil
  then show ?case by simp
next
  case (Cons a xs)
  have "k a \<notin> k ` set (snd (delete_one P xs))"
    using Cons.prems set_delete_one [of P xs] by auto
  with Cons show ?case by (auto split: prod.splits)
qed

lemma delete_one_removes:
  "distinct (map k xs) \<Longrightarrow> (\<And>x. P x \<longleftrightarrow> k x = a) \<Longrightarrow>
   \<not> list_ex P (snd (delete_one P xs))"
  by (induction xs) (auto simp: list_ex_iff image_iff split: prod.splits)

lemma ToggleLike_ok:
  assumes "req_user r \<noteq> NilObjectID" "req_slug r \<noteq> []"
    and "resolvePostBySlug e s (req_slug r) = Some post"
    and "store_ok e PostLikesDeleteOne"
    and "has_like s (post_id post) (req_user r) \<or> store_ok e PostLikesInsertOne"
  shows "ToggleLike e r s =
    likeResponse e (post_id post) (\<not> has_like s (post_id post) (req_user r))
      (s\<lparr>post_likes :=
           (if has_like s (post_id post) (req_user r) then
              snd (delete_one (\<lambda>l. pl_post_id l = post_id post \<and> pl_user_id l = req_user r)
                     (post_likes s))
            else post_likes s @
              [\<lparr>pl_id = new_object_id e, pl_post_id = post_id post, pl_user_id = req_user r,
                pl_created_at = time_now e\<rparr>]),
         posts :=
           (if store_ok e PostsIncLikeCount then
              update_one (\<lambda>p. post_id p = post_id post)
                (\<lambda>p. p\<lparr>like_count := like_count p
                    + (if has_like s (post_id post) (req_user r) then - 1 else 1)\<rparr>) (posts s)
            else posts s),
         events := events s @
           (if has_like s (post_id post) (req_user r)
            then [Metric ''IncPostUnlike'', Log ''post_unliked'']
            else [Metric ''IncPostLike'', Log ''post_liked''])\<rparr>)"
proof -
  let ?P = "\<lambda>l. pl_post_id l = post_id post \<and> pl_user_id l = req_user r"
  obtain n ls where del: "delete_one ?P (post_likes s) = (n, ls)" by (cases "delete_one ?P (post_likes s)")
  have n: "n = (if has_like s (post_id post) (req_user r) then 1 else 0)"
    using fst_delete_one [of ?P "post_likes s"] del by (simp add: has_like_def)
  show ?thesis
  proof (cases "has_like s (post_id post) (req_user r)")
    case True
    then show ?thesis using assms del n
      by (simp add: ToggleLike_def Let_def PostLikes_DeleteOne_def Posts_UpdateOne_def
          ignoring_error_def emit_def)
  next
    case False
    then have ls: "ls = post_likes s"
      using del delete_one_none [of ?P "post_likes s"] by (simp add: has_like_def)
    show ?thesis using assms del n False ls
      by (simp add: ToggleLike_def Let_def PostLikes_DeleteOne_def PostLikes_InsertOne_def
          Posts_UpdateOne_def ignoring_error_def emit_def has_like_def)
  qed
qed


lemma has_like_after:
  assumes "distinct (map (\<lambda>l. (pl_post_id l, pl_user_id l)) (post_likes s))"
  shows "list_ex (\<lambda>l. pl_post_id l = pid \<and> pl_user_id l = uid)
          (if has_like s pid uid then
             snd (delete_one (\<lambda>l. pl_post_id l = pid \<and> pl_user_id l = uid) (post_likes s))
           else post_likes s @ [\<lparr>pl_id = i, pl_post_id = pid, pl_user_id = uid,
                                 pl_created_at = t\<rparr>])
         \<longleftrightarrow> \<not> has_like s pid uid"
proof (cases "has_like s pid uid")
  case True
  have "\<not> list_ex (\<lambda>l. pl_post_id l = pid \<and> pl_user_id l = uid)
          (snd (delete_one (\<lambda>l. pl_post_id l = pid \<and> pl_user_id l = uid) (post_likes s)))"
    by (rule delete_one_removes [OF assms, where a = "(pid, uid)"]) auto
  with True show ?thesis by simp
next
  case False
  then show ?thesis by (simp add: list_ex_iff)
qed

lemma likes_distinct_after:
  assumes "distinct (map (\<lambda>l. (pl_post_id l, pl_user_id l)) (post_likes s))"
  shows "distinct (map (\<lambda>l. (pl_post_id l, pl_user_id l))
          (if has_like s pid uid then
             snd (delete_one (\<lambda>l. pl_post_id l = pid \<and> pl_user_id l = uid) (post_likes s))
           else post_likes s @ [\<lparr>pl_id = i, pl_post_id = pid, pl_user_id = uid,
                                 pl_created_at = t\<rparr>]))"
proof (cases "has_like s pid uid")
  case True
  then show ?thesis by (simp add: distinct_delete_one [OF assms])
next
  case False
  then show ?thesis using assms by (auto simp: has_like_def list_ex_iff)
qed

lemma ToggleLike_effect:
  assumes wf: "wf_store s"
    and user: "req_user r \<noteq> NilObjectID" and slug: "req_slug r \<noteq> []"
    and res: "resolvePostBySlug e s (req_slug r) = Some post"
    and ok: "store_ok e PostLikesDeleteOne"
      "has_like s (post_id post) (req_user r) \<or> store_ok e PostLikesInsertOne"
  shows "\<exists>s' post'. ToggleLike e r s
             = (LikeResponse (\<not> has_like s (post_id post) (req_user r))
                  (if store_ok e PostsFindUpdated then like_count post' else 0), s')
          \<and> post' = (if store_ok e PostsIncLikeCount
                      then post\<lparr>like_count := like_count post
                             + (if has_like s (post_id post) (req_user r) then - 1 else 1)\<rparr>
                      else post)
          \<and> post_by_id s' (post_id post) = Some post'
          \<and> find (published_as (req_slug r)) (posts s') = Some post'
          \<and> has_like s' (post_id post) (req_user r) = (\<not> has_like s (post_id post) (req_user r))
          \<and> post_likes s' =
               (if has_like s (post_id post) (req_user r) then
                  snd (delete_one (\<lambda>l. pl_post_id l = post_id post \<and> pl_user_id l = req_user r)
                         (post_likes s))
                else post_likes s @
                  [\<lparr>pl_id = new_object_id e, pl_post_id = post_id post, pl_user_id = req_user r,
                    pl_created_at = time_now e\<rparr>])
          \<and> wf_store s'"
proof -
  from wf have d: "distinct (map post_id (posts s))"
    and dl: "distinct (map (\<lambda>l. (pl_post_id l, pl_user_id l)) (post_likes s))"
    and dv: "distinct (map (\<lambda>v. (pv_post_id v, pv_user_id v)) (post_views s))"
    by (simp_all add: wf_store_def)
  from resolve_find [OF res] have f: "find (published_as (req_slug r)) (posts s) = Some post"
    by simp
  then have mem: "post \<in> set (posts s)" by (simp add: find_SomeD)
  let ?g = "\<lambda>p. p\<lparr>like_count := like_count p
      + (if has_like s (post_id post) (req_user r) then - 1 else 1)\<rparr>"
  let ?ps = "if store_ok e PostsIncLikeCount
      then update_one (\<lambda>p. post_id p = post_id post) ?g (posts s) else posts s"
  let ?post' = "if store_ok e PostsIncLikeCount then ?g post else post"
  have byid: "find (\<lambda>p. post_id p = post_id post) ?ps = Some ?post'"
    using find_key_update_one [OF d mem, of ?g] find_distinct_key [OF d mem] by simp
  have pres: "published_as sl (?g p) = published_as sl p" for sl p
    by (simp add: published_as_def)
  have fnd: "find (published_as (req_slug r)) ?ps = Some ?post'"
    using find_other_update_one [OF d f, of ?g] pres f by simp
  have dst: "distinct (map post_id ?ps)"
    using d by (simp add: map_update_one)
  show ?thesis
    unfolding ToggleLike_ok [OF user slug res ok] likeResponse_def Let_def
    using byid fnd dst dv has_like_after [OF dl] likes_distinct_after [OF dl]
    by (simp add: post_by_id_def has_like_def wf_store_def)
qed


lemma ToggleLike_delete_fails:
  assumes "req_user r \<noteq> NilObjectID" "req_slug r \<noteq> []"
    and "resolvePostBySlug e s (req_slug r) = Some post"
    and "\<not> store_ok e PostLikesDeleteOne"
  shows "ToggleLike e r s = (HttpError 500 ''Error toggling like'', s)"
  using assms by (simp add: ToggleLike_def Let_def PostLikes_DeleteOne_def)

lemma ToggleLike_insert_fails:
  assumes "req_user r \<noteq> NilObjectID" "req_slug r \<noteq> []"
    and "resolvePostBySlug e s (req_slug r) = Some post"
    and "store_ok e PostLikesDeleteOne"
    and "\<not> has_like s (post_id post) (req_user r)" "\<not> store_ok e PostLikesInsertOne"
  shows "ToggleLike e r s = (HttpError 500 ''Error toggling like'', s)"
proof -
  have "delete_one (\<lambda>l. pl_post_id l = post_id post \<and> pl_user_id l = req_user r) (post_likes s)
      = (0, post_likes s)"
    using assms(5) by (intro delete_one_none) (simp add: has_like_def)
  then show ?thesis using assms
    by (simp add: ToggleLike_def Let_def PostLikes_DeleteOne_def PostLikes_InsertOne_def)
qed

text \<open>
  Claim C6, as amended. An authenticated toggle on a published post answers the error 500
  and changes nothing when the delete of the marker fails, or when no marker was there
  and the insert fails. Otherwise: when the like marker of the post and the user was
  there it is deleted and the answer is \<open>liked = false\<close>; when it was not, a new marker
  is inserted and the answer is \<open>liked = true\<close>. The update of \<open>like_count\<close> takes one
  off in the first case and adds one in the second when it succeeds; its error is
  dropped, and \<open>like_count\<close> then stays as it was. The \<open>like_count\<close> of the answer is the
  one of the post as it is in the store after the request when the final read succeeds;
  the error of the read is dropped too, and the answer then carries 0.
\<close>

theorem ToggleLike_transition:
  assumes wf: "wf_store s"
    and user: "req_user r \<noteq> NilObjectID" and slug: "req_slug r \<noteq> []"
    and res: "resolvePostBySlug e s (req_slug r) = Some post"
  shows "(\<not> store_ok e PostLikesDeleteOne \<longrightarrow>
            ToggleLike e r s = (HttpError 500 ''Error toggling like'', s))
       \<and> (store_ok e PostLikesDeleteOne \<and> \<not> has_like s (post_id post) (req_user r)
            \<and> \<not> store_ok e PostLikesInsertOne \<longrightarrow>
            ToggleLike e r s = (HttpError 500 ''Error toggling like'', s))
       \<and> (store_ok e PostLikesDeleteOne
            \<and> (has_like s (post_id post) (req_user r) \<or> store_ok e PostLikesInsertOne) \<longrightarrow>
            (\<exists>s' post'. ToggleLike e r s
                 = (LikeResponse (\<not> has_like s (post_id post) (req_user r))
                      (if store_ok e PostsFindUpdated then like_count post' else 0), s')
              \<and> post_by_id s' (post_id post) = Some post'
              \<and> post' = (if store_ok e PostsIncLikeCount
                          then post\<lparr>like_count := like_count post
                                 + (if has_like s (post_id post) (req_user r) then - 1 else 1)\<rparr>
                          else post)
              \<and> has_like s' (post_id post) (req_user r)
                  = (\<not> has_like s (post_id post) (req_user r))
              \<and> post_likes s' =
                   (if has_like s (post_id post) (req_user r) then
                      snd (delete_one
                             (\<lambda>l. pl_post_id l = post_id post \<and> pl_user_id l = req_user r)
                             (post_likes s))
                    else post_likes s @
                      [\<lparr>pl_id = new_object_id e, pl_post_id = post_id post,
                        pl_user_id = req_user r, pl_created_at = time_now e\<rparr>])))"
proof (intro conjI impI)
  assume "\<not> store_ok e PostLikesDeleteOne"
  then show "ToggleLike e r s = (HttpError 500 ''Error toggling like'', s)"
    by (rule ToggleLike_delete_fails [OF user slug res])
next
  assume "store_ok e PostLikesDeleteOne \<and> \<not> has_like s (post_id post) (req_user r)
      \<and> \<not> store_ok e PostLikesInsertOne"
  then show "ToggleLike e r s = (HttpError 500 ''Error toggling like'', s)"
    using ToggleLike_insert_fails [OF user slug res] by blast
next
  assume a: "store_ok e PostLikesDeleteOne
      \<and> (has_like s (post_id post) (req_user r) \<or> store_ok e PostLikesInsertOne)"
  from ToggleLike_effect [OF wf user slug res a [THEN conjunct1] a [THEN conjunct2]]
  obtain s' post' where
    "ToggleLike e r s
       = (LikeResponse (\<not> has_like s (post_id post) (req_user r))
            (if store_ok e PostsFindUpdated then like_count post' else 0), s')"
    "post' = (if store_ok e PostsIncLikeCount
              then post\<lparr>like_count := like_count post
                     + (if has_like s (post_id post) (req_user r) then - 1 else 1)\<rparr>
              else post)"
    "post_by_id s' (post_id post) = Some post'"
    "has_like s' (post_id post) (req_user r) = (\<not> has_like s (post_id post) (req_user r))"
    "post_likes s' =
       (if has_like s (post_id post) (req_user r) then
          snd (delete_one (\<lambda>l. pl_post_id l = post_id post \<and> pl_user_id l = req_user r)
                 (post_likes s))
        else post_likes s @
          [\<lparr>pl_id = new_object_id e, pl_post_id = post_id post, pl_user_id = req_user r,
            pl_created_at = time_now e\<rparr>])"
    by blast
  then show "\<exists>s' post'. ToggleLike e r s
                 = (LikeResponse (\<not> has_like s (post_id post) (req_user r))
                      (if store_ok e PostsFindUpdated then like_count post' else 0), s')
              \<and> post_by_id s' (post_id post) = Some post'
              \<and> post' = (if store_ok e PostsIncLikeCount
                          then post\<lparr>like_count := like_count post
                                 + (if has_like s (post_id post) (req_user r) then - 1 else 1)\<rparr>
                          else post)
              \<and> has_like s' (post_id post) (req_user r)
                  = (\<not> has_like s (post_id post) (req_user r))
              \<and> post_likes s' =
                   (if has_like s (post_id post) (req_user r) then
                      snd (delete_one
                             (\<lambda>l. pl_post_id l = post_id post \<and> pl_user_id l = req_user r)
                             (post_likes s))
                    else post_likes s @
                      [\<lparr>pl_id = new_object_id e, pl_post_id = post_id post,
                        pl_user_id = req_user r, pl_created_at = time_now e\<rparr>])"
    by blast
qed

lemma like_delta_step:
  "like_delta l 1 + like_delta (\<not> l) n = like_delta l (Suc n)"
  by (simp add: like_delta_def)

lemma run_ToggleLike:
  assumes "wf_store s"
    and "req_user r \<noteq> NilObjectID" and "req_slug r \<noteq> []"
    and "find (published_as (req_slug r)) (posts s) = Some post"
    and "\<forall>e\<in>set es. store_up e"
  shows "fst (run ToggleLike es r s)
           = map (\<lambda>k. LikeResponse (has_like s (post_id post) (req_user r) = odd k)
                        (like_count post
                           + like_delta (has_like s (post_id post) (req_user r)) (Suc k)))
               [0..<length es]
       \<and> post_by_id (snd (run ToggleLike es r s)) (post_id post)
           = Some (post\<lparr>like_count := like_count post
                     + like_delta (has_like s (post_id post) (req_user r)) (length es)\<rparr>)
       \<and> has_like (snd (run ToggleLike es r s)) (post_id post) (req_user r)
           = (has_like s (post_id post) (req_user r) \<noteq> odd (length es))"
  using assms
proof (induction es arbitrary: s post)
  case Nil
  have "post_by_id s (post_id post) = Some post"
    using Nil.prems(1,4) by (intro post_by_id_found) (simp_all add: wf_store_def)
  then show ?case by (simp add: like_delta_def)
next
  case (Cons e es)
  let ?l = "has_like s (post_id post) (req_user r)"
  from Cons.prems(5) have up: "store_up e" and ups: "\<forall>e\<in>set es. store_up e" by simp_all
  from up have ok: "store_ok e c" for c by (simp add: store_up_def)
  have res: "resolvePostBySlug e s (req_slug r) = Some post"
    using Cons.prems(4) by (simp add: resolve_ok ok)
  from ToggleLike_effect [OF Cons.prems(1-3) res ok disjI2 [OF ok]] obtain s1 p1 where
    s1: "ToggleLike e r s = (LikeResponse (\<not> ?l) (like_count p1), s1)"
      "p1 = post\<lparr>like_count := like_count post + (if ?l then - 1 else 1)\<rparr>"
      "find (published_as (req_slug r)) (posts s1) = Some p1"
      "has_like s1 (post_id post) (req_user r) = (\<not> ?l)"
      "wf_store s1"
    by (auto simp: ok)
  have id1: "post_id p1 = post_id post" and c1: "like_count p1 = like_count post + like_delta ?l 1"
    by (simp_all add: s1(2) like_delta_def)
  note ih = Cons.IH [OF s1(5) Cons.prems(2,3) s1(3) ups, unfolded id1 s1(4) c1]
  have run: "run ToggleLike (e # es) r s
      = (LikeResponse (\<not> ?l) (like_count p1) # fst (run ToggleLike es r s1),
         snd (run ToggleLike es r s1))"
    by (simp add: s1(1) split: prod.splits)
  have upt: "[0..<length (e # es)] = 0 # map Suc [0..<length es]"
    by (simp add: upt_conv_Cons map_Suc_upt del: upt_Suc)
  show ?case
    unfolding run upt using ih
    by (simp add: c1 s1(2) comp_def add.assoc like_delta_step del: upt_Suc)
       (simp add: like_delta_def)
qed

text \<open>
  Claim C7. Successful toggles of one user on one post alternate: the \<open>k\<close>-th answer
  (from 0) is \<open>liked = true\<close> exactly when the state before it was not liked, so from
  the state not liked three toggles answer true, false, true; after an even number of
  toggles \<open>like_count\<close> is what it was at the start, and the marker is there again
  or gone again.
\<close>

theorem ToggleLike_alternates:
  assumes wf: "wf_store s"
    and user: "req_user r \<noteq> NilObjectID" and slug: "req_slug r \<noteq> []"
    and post: "find (published_as (req_slug r)) (posts s) = Some post"
    and up: "\<forall>e\<in>set es. store_up e"
  shows "map resp_liked (fst (run ToggleLike es r s))
           = map (\<lambda>k. Some (has_like s (post_id post) (req_user r) = odd k)) [0..<length es]
       \<and> (\<not> has_like s (post_id post) (req_user r) \<and> length es = 3 \<longrightarrow>
            map resp_liked (fst (run ToggleLike es r s)) = [Some True, Some False, Some True])
       \<and> (even (length es) \<longrightarrow>
            map_option like_count (post_by_id (snd (run ToggleLike es r s)) (post_id post))
              = Some (like_count post))
       \<and> has_like (snd (run ToggleLike es r s)) (post_id post) (req_user r)
           = (has_like s (post_id post) (req_user r) \<noteq> odd (length es))"
proof -
  note run = run_ToggleLike [OF assms]
  have a: "map resp_liked (fst (run ToggleLike es r s))
      = map (\<lambda>k. Some (has_like s (post_id post) (req_user r) = odd k)) [0..<length es]"
    unfolding run [THEN conjunct1] by (simp add: resp_liked_def comp_def)
  have three: "[0..<3] = [0, 1, 2]" by (simp add: upt_rec)
  have b: "\<not> has_like s (post_id post) (req_user r) \<and> length es = 3 \<longrightarrow>
      map resp_liked (fst (run ToggleLike es r s)) = [Some True, Some False, Some True]"
    unfolding a by (auto simp: three)
  have c: "even (length es) \<longrightarrow>
      map_option like_count (post_by_id (snd (run ToggleLike es r s)) (post_id post))
        = Some (like_count post)"
    unfolding run [THEN conjunct2, THEN conjunct1] by (simp add: like_delta_def)
  from a b c run [THEN conjunct2, THEN conjunct2] show ?thesis by blast
qed

lemmas toggle_eval =
  ToggleLike_def likeResponse_def PostLikes_DeleteOne_def PostLikes_InsertOne_def store_eval
  has_like_def store_up_def published_as_def resp_liked_def

theorem ToggleLike_alternates_witness:
  "wf_store test_store \<and> req_user test_request \<noteq> NilObjectID \<and> req_slug test_request \<noteq> []
   \<and> find (published_as (req_slug test_request)) (posts test_store) = Some test_post
   \<and> store_up env_ok
   \<and> \<not> has_like test_store (post_id test_post) (req_user test_request)
   \<and> map resp_liked (fst (run ToggleLike [env_ok, env_ok, env_ok] test_request test_store))
       = [Some True, Some False, Some True]
   \<and> map_option like_count
        (post_by_id (snd (run ToggleLike [env_ok, env_ok] test_request test_store))
           (post_id test_post)) = Some (like_count test_post)"
proof -
  have h: "wf_store test_store" "req_user test_request \<noteq> NilObjectID"
    "req_slug test_request \<noteq> []"
    "find (published_as (req_slug test_request)) (posts test_store) = Some test_post"
    by (simp_all add: toggle_eval)
  have u3: "\<forall>e\<in>set [env_ok, env_ok, env_ok]. store_up e"
    and u2: "\<forall>e\<in>set [env_ok, env_ok]. store_up e"
    by (simp_all add: store_up_def env_ok_def)
  have n: "\<not> has_like test_store (post_id test_post) (req_user test_request)"
    by (simp add: toggle_eval)
  have u: "store_up env_ok" by (simp add: store_up_def env_ok_def)
  from ToggleLike_alternates [OF h u3] ToggleLike_alternates [OF h u2] n h u
  show ?thesis by simp
qed

theorem ToggleLike_transition_witness:
  "wf_store test_store \<and> req_user test_request \<noteq> NilObjectID \<and> req_slug test_request \<noteq> []
   \<and> resolvePostBySlug env_ok test_store (req_slug test_request) = Some test_post
   \<and> store_ok env_ok PostLikesDeleteOne \<and> store_ok env_ok PostLikesInsertOne
   \<and> (\<exists>s'. ToggleLike env_ok test_request test_store = (LikeResponse True 6, s')
         \<and> post_by_id s' 1 = Some (test_post\<lparr>like_count := 6\<rparr>)
         \<and> has_like s' 1 7)"
proof -
  have h: "wf_store test_store" "req_user test_request \<noteq> NilObjectID"
    "req_slug test_request \<noteq> []"
    "resolvePostBySlug env_ok test_store (req_slug test_request) = Some test_post"
    by (simp_all add: toggle_eval)
  have k: "store_ok env_ok PostLikesDeleteOne" "store_ok env_ok PostLikesInsertOne"
    by (simp_all add: toggle_eval)
  have v: "\<not> has_like test_store (Suc 0) 7"
    "post_id test_post = 1" "req_user test_request = 7" "like_count test_post = 5"
    "store_ok env_ok PostsIncLikeCount" "store_ok env_ok PostsFindUpdated"
    by (simp_all add: toggle_eval)
  from ToggleLike_transition [OF h] show ?thesis
    using h k by (auto simp: v)
qed

text \<open>
  Claim C6 as stated fails where the handler drops an error. With the final read
  failing, the first toggle answers \<open>liked = true\<close> with the count 0 while the post in
  the store has 6 likes. With the update of the counter failing, the marker is inserted
  and the answer is \<open>liked = true\<close>, and \<open>like_count\<close> is still 5.
\<close>

theorem ToggleLike_dropped_errors:
  "ToggleLike env_read_down test_request test_store
     = (LikeResponse True 0, snd (ToggleLike env_read_down test_request test_store))
   \<and> map_option like_count
        (post_by_id (snd (ToggleLike env_read_down test_request test_store)) 1) = Some 6
   \<and> has_like (snd (ToggleLike env_count_down test_request test_store)) 1 7
   \<and> ToggleLike env_count_down test_request test_store
       = (LikeResponse True 5, snd (ToggleLike env_count_down test_request test_store))
   \<and> map_option like_count
        (post_by_id (snd (ToggleLike env_count_down test_request test_store)) 1) = Some 5"
  by (simp add: toggle_eval env_read_down_def env_count_down_def)

lemma length_repeat: "length (concat (replicate n e_acute)) = 2 * n"
  by (induction n) (simp_all add: e_acute_def)

lemma rune_count_repeat: "rune_count (concat (replicate n e_acute)) = n"
  by (induction n) (simp_all add: rune_count_def e_acute_def utf8_continuation_def)

text \<open>
  Claim C8, where the code departs from it. The length check counts bytes, not
  characters: a content of 1001 letters \<open>e\<close> with an acute accent has 1001 characters,
  within 1 to 2000, and 2002 bytes, and the request is rejected with the message that
  speaks of characters.
\<close>

theorem CreateComment_counts_bytes:
  "rune_count (concat (replicate 1001 e_acute)) = 1001
   \<and> CreateComment e
        \<lparr>req_user = 7, req_slug = ''hello'', req_body = Some (concat (replicate 1001 e_acute))\<rparr> s
       = (HttpError 400 ''Content must be between 1 and 2000 characters'', s)"
  by (simp add: rune_count_repeat CreateComment_def length_repeat NilObjectID_def)

section \<open>Properties of the upload handlers\<close>

lemma events_emit [simp]: "events (emit ev s) = events s @ [ev]"
  by (simp add: emit_def)

lemma UploadAvatar_events:
  "events (snd (UploadAvatar lib e r s))
     = events s @ (if is_error (fst (UploadAvatar lib e r s)) then []
                   else [Metric ''IncAvatarUpload'', Log ''avatar_uploaded''])"
  by (simp add: UploadAvatar_def Let_def Profiles_UpdateOne_def is_error_def
      split: option.split prod.split)

lemma UploadPostImage_events:
  "events (snd (UploadPostImage lib e r s))
     = events s @ (if is_error (fst (UploadPostImage lib e r s)) then []
                   else [Log ''blog_image_uploaded''])"
  by (simp add: UploadPostImage_def Let_def Images_InsertOne_def is_error_def
      split: option.split prod.split)

text \<open>
  Claim C9, as amended. A successful avatar upload emits the metrics increment
  \<open>IncAvatarUpload\<close> and the log event \<open>avatar_uploaded\<close>; a successful post-image
  upload emits the log event \<open>blog_image_uploaded\<close> and no metrics increment. An upload
  of either path that fails (unauthenticated, too large, no file field, type not allowed,
  unreadable, not decodable, not encodable, store error, profile not found) emits
  nothing.
\<close>

theorem upload_side_effects:
  "events (snd (UploadAvatar lib e r s))
     = events s @ (if is_error (fst (UploadAvatar lib e r s)) then []
                   else [Metric ''IncAvatarUpload'', Log ''avatar_uploaded''])
   \<and> events (snd (UploadPostImage lib e r s))
     = events s @ (if is_error (fst (UploadPostImage lib e r s)) then []
                   else [Log ''blog_image_uploaded''])"
  by (simp only: UploadAvatar_events UploadPostImage_events)

lemmas upload_eval =
  UploadPostImage_def UploadAvatar_def Let_def Images_InsertOne_def Profiles_UpdateOne_def
  test_lib_def test_upload_def test_profiles_def test_store_def env_ok_def NilObjectID_def
  emit_def is_error_def is_metric_def

theorem upload_side_effects_witness:
  "\<not> is_error (fst (UploadAvatar test_lib env_ok test_upload test_profiles))
   \<and> events (snd (UploadAvatar test_lib env_ok test_upload test_profiles))
       = [Metric ''IncAvatarUpload'', Log ''avatar_uploaded'']
   \<and> is_error (fst (UploadAvatar test_lib env_ok (test_upload\<lparr>up_file := None\<rparr>) test_profiles))
   \<and> events (snd (UploadAvatar test_lib env_ok (test_upload\<lparr>up_file := None\<rparr>) test_profiles))
       = []"
proof -
  have ok: "\<not> is_error (fst (UploadAvatar test_lib env_ok test_upload test_profiles))"
    by (simp add: upload_eval)
  have bad: "is_error (fst (UploadAvatar test_lib env_ok (test_upload\<lparr>up_file := None\<rparr>)
      test_profiles))"
    by (simp add: upload_eval)
  have ev: "events test_profiles = []"
    by (simp add: test_profiles_def test_store_def)
  from upload_side_effects [of test_lib env_ok test_upload test_profiles]
    upload_side_effects [of test_lib env_ok "test_upload\<lparr>up_file := None\<rparr>" test_profiles]
  show ?thesis by (simp add: ok bad ev)
qed

text \<open>
  Claim C9 as stated fails on the post-image path: a successful upload answers with the
  URL of the image and emits the log event only, no metrics increment.
\<close>

theorem post_image_upload_no_metric:
  "fst (UploadPostImage test_lib env_ok test_upload test_store)
     = UrlJson ''/api/v1/blog/images/0064''
   \<and> events (snd (UploadPostImage test_lib env_ok test_upload test_store))
       = [Log ''blog_image_uploaded'']
   \<and> \<not> list_ex is_metric (events (snd (UploadPostImage test_lib env_ok test_upload test_store)))"
  by (simp add: upload_eval resizeCover_def test_image_def Rect_def Dx_def Dy_def)

end
